theory Spec2Isabelle
  imports Complex_Main
begin

section \<open>Data model\<close>

text \<open>
  The backend keeps two MongoDB collections, \<open>Patient\<close> (models/Patient.js) and
  \<open>Diagnosis\<close> (models/Diagnosis.js). A document is a record, a collection is the
  list of its documents in insertion order, and an ObjectId is a natural number drawn from
  a counter, so that an id is never used twice. \<open>Date.now\<close> is a natural number
  handed to every handler, one reading of the clock for each request. The handlers are
  modelled one request at a time; a string is a list of 8-bit characters.
\<close>

type_synonym objectId = nat

text \<open>
  A field of the JSON request body, as the handler reads it from \<open>req.body\<close>:
  absent (\<open>undefined\<close>), \<open>null\<close>, a boolean, a number, a string, an array or
  an object. \<open>Number x\<close> is a JSON number with its value as a rational. Of a string
  that is not empty and of an array the model keeps what the code can see of it, the
  number that JavaScript converts it to (\<open>Number(v)\<close>), \<open>None\<close> when that is
  \<open>NaN\<close>: \<open>Str (Some 42)\<close> is \<^verbatim>\<open>"42"\<close> or \<^verbatim>\<open>" 42 "\<close>, \<open>Str None\<close> is
  \<^verbatim>\<open>"abc"\<close>, \<open>Array (Some 0)\<close> is \<open>[]\<close>, \<open>Array (Some 5)\<close> is \<open>[5]\<close>,
  \<open>Array None\<close> is \<open>[1, 2]\<close>. A number beyond the range of a double, which
  \<open>JSON.parse\<close> reads as an infinity, is left out.
\<close>

datatype jsval =
  Undefined | Null | Boolean bool | Number rat | EmptyString | Str "rat option"
  | Array "rat option" | Object

text \<open>
  \<open>ToNumber\<close> of JavaScript, which \<open>isNaN(v)\<close> and the comparisons of a value with
  a number literal apply to the value first; \<open>None\<close> is \<open>NaN\<close>, and every comparison
  with \<open>NaN\<close> is false. The strict equality \<open>v === 0\<close> converts nothing: it holds
  for the number 0 only, and is written \<open>v = Number 0\<close> below.
\<close>

fun toNumber :: "jsval \<Rightarrow> rat option" where
  "toNumber Undefined = None"
| "toNumber Null = Some 0"
| "toNumber (Boolean b) = Some (if b then 1 else 0)"
| "toNumber (Number x) = Some x"
| "toNumber EmptyString = Some 0"
| "toNumber (Str x) = x"
| "toNumber (Array x) = x"
| "toNumber Object = None"

definition isNaN :: "jsval \<Rightarrow> bool" where
  "isNaN v = (toNumber v = None)"

definition js_ge :: "jsval \<Rightarrow> rat \<Rightarrow> bool" where
  "js_ge v c = (case toNumber v of None \<Rightarrow> False | Some x \<Rightarrow> c \<le> x)"

definition js_le :: "jsval \<Rightarrow> rat \<Rightarrow> bool" where
  "js_le v c = (case toNumber v of None \<Rightarrow> False | Some x \<Rightarrow> x \<le> c)"

definition js_lt :: "jsval \<Rightarrow> rat \<Rightarrow> bool" where
  "js_lt v c = (case toNumber v of None \<Rightarrow> False | Some x \<Rightarrow> x < c)"

definition js_gt :: "jsval \<Rightarrow> rat \<Rightarrow> bool" where
  "js_gt v c = (case toNumber v of None \<Rightarrow> False | Some x \<Rightarrow> c < x)"

text \<open>
  A reading: the three fields as they arrive in the request (\<open>jsval reading\<close>), and
  as a subdocument of \<open>sensorData\<close>, where each field is a number or \<open>null\<close>
  (\<open>None\<close>).
\<close>

record 'a reading =
  bpm :: 'a
  spo2 :: 'a
  temperature :: 'a

record sensor_entry = "rat option reading" +
  timestamp :: nat

datatype status =
  collecting_data | prediction_made | pending_approval | approved | declined
  | medication_dispensed | completed

datatype motor_command = none | activate_motor_1 | activate_motor_2

record diagnosis =
  d_id :: objectId
  patientId :: objectId
  doctorId :: objectId
  kioskId :: string
  sensorData :: "sensor_entry list"
  predictedDisease :: string
  approvedDisease :: string
  status :: status
  motorCommand :: motor_command
  commandExecuted :: bool
  createdAt :: nat
  updatedAt :: nat

record patient =
  p_id :: objectId
  name :: string
  age :: rat
  phoneNumber :: "string option"
  p_doctorId :: objectId
  p_kioskId :: string
  isActive :: bool
  p_createdAt :: nat

record store =
  patients :: "patient list"
  diagnoses :: "diagnosis list"
  nextId :: objectId

definition empty_store :: store where
  "empty_store = \<lparr>patients = [], diagnoses = [], nextId = 0\<rparr>"

text \<open>The HTTP failures of the handlers: status 400, 404 and 500.\<close>

datatype error = BadRequest | NotFound | ServerError

section \<open>Schema validation and casting\<close>

text \<open>
  \<open>trim: true\<close> of the Patient schema applies \<open>String.prototype.trim\<close> to
  \<open>name\<close>, \<open>phoneNumber\<close> and \<open>kioskId\<close>, both when a document is built and
  when a query filter on such a path is cast.
\<close>

definition is_space :: "char \<Rightarrow> bool" where
  "is_space c = (of_char c \<in> {9, 10, 11, 12, 13, 32, 160 :: nat})"

definition trim :: "string \<Rightarrow> string" where
  "trim s = rev (dropWhile is_space (rev (dropWhile is_space s)))"

text \<open>
  The \<open>match\<close> validator of \<open>phoneNumber\<close>:
  \<^verbatim>\<open>/^\+?\d{1,3}?[-.\s]?\(?\d{3}\)?[-.\s]?\d{3}[-.\s]?\d{4}$/\<close>.
  The pattern is a sequence of character classes, each with a least and a greatest number
  of repetitions; whether the whole string matches does not depend on a quantifier being
  lazy.
\<close>

datatype cclass = Lit char | Digit | Sep

fun in_class :: "cclass \<Rightarrow> char \<Rightarrow> bool" where
  "in_class (Lit c) x = (x = c)"
| "in_class Digit x = (48 \<le> (of_char x :: nat) \<and> (of_char x :: nat) \<le> 57)"
| "in_class Sep x = (x = CHR ''-'' \<or> x = CHR ''.'' \<or> is_space x)"

fun rx_match :: "(cclass \<times> nat \<times> nat) list \<Rightarrow> string \<Rightarrow> bool" where
  "rx_match [] s = (s = [])"
| "rx_match ((c, lo, hi) # ps) [] = (lo = 0 \<and> rx_match ps [])"
| "rx_match ((c, lo, hi) # ps) (x # xs) =
     ((lo = 0 \<and> rx_match ps (x # xs))
      \<or> (0 < hi \<and> in_class c x \<and> rx_match ((c, lo - 1, hi - 1) # ps) xs))"

definition phone_pattern :: "(cclass \<times> nat \<times> nat) list" where
  "phone_pattern =
     [(Lit CHR ''+'', 0, 1), (Digit, 1, 3), (Sep, 0, 1), (Lit CHR ''('', 0, 1),
      (Digit, 3, 3), (Lit CHR '')'', 0, 1), (Sep, 0, 1), (Digit, 3, 3), (Sep, 0, 1),
      (Digit, 4, 4)]"

text \<open>
  Validation of a Patient on \<open>save\<close>: \<open>name\<close> is required (an empty string is
  refused), \<open>age\<close> has \<open>min: 0\<close>, and a \<open>phoneNumber\<close> that is present and not
  empty must match the pattern.
\<close>

definition patient_valid :: "patient \<Rightarrow> bool" where
  "patient_valid p =
     (name p \<noteq> [] \<and> 0 \<le> age p
      \<and> (case phoneNumber p of
            None \<Rightarrow> True
          | Some ph \<Rightarrow> ph = [] \<or> rx_match phone_pattern ph))"

text \<open>
  Validation of a Diagnosis on \<open>save\<close>: \<open>kioskId\<close> is required, and
  \<open>predictedDisease\<close> and \<open>approvedDisease\<close> must be values of their \<open>enum\<close>.
  The \<open>enum\<close> of \<open>status\<close> is the datatype above.
\<close>

definition disease_enum :: "string list" where
  "disease_enum = [''Disease A'', ''Disease B'', ''Undetermined'', ''N/A'']"

definition diagnosis_valid :: "diagnosis \<Rightarrow> bool" where
  "diagnosis_valid d =
     (kioskId d \<noteq> [] \<and> predictedDisease d \<in> set disease_enum
      \<and> approvedDisease d \<in> set disease_enum)"

text \<open>
  The cast of Mongoose to the type \<open>Number\<close> of the three paths of a \<open>sensorData\<close>
  subdocument: \<open>null\<close> and the empty string become \<open>null\<close>, a boolean and a
  string that reads as a number become that number, and a string that does not, an
  array or an object is a \<open>CastError\<close> (\<open>None\<close>). An absent field is cast like
  \<open>null\<close>; the guard of \<open>data_upload\<close> lets none through.
  \<open>sensorData.push\<close> builds the subdocument from the cast values and the \<open>default\<close>
  of \<open>timestamp\<close>. A \<open>CastError\<close> stays on the document as a validation error
  and makes a later \<open>save\<close> reject; \<open>sensor_subdoc\<close> is \<open>None\<close> then.
\<close>

fun castNumber :: "jsval \<Rightarrow> rat option option" where
  "castNumber Undefined = Some None"
| "castNumber Null = Some None"
| "castNumber EmptyString = Some None"
| "castNumber (Boolean b) = Some (Some (if b then 1 else 0))"
| "castNumber (Number x) = Some (Some x)"
| "castNumber (Str x) = (case x of None \<Rightarrow> None | Some y \<Rightarrow> Some (Some y))"
| "castNumber (Array x) = None"
| "castNumber Object = None"

definition sensor_subdoc :: "jsval \<Rightarrow> jsval \<Rightarrow> jsval \<Rightarrow> nat \<Rightarrow> sensor_entry option" where
  "sensor_subdoc b s t now =
     (case castNumber b of
        None \<Rightarrow> None
      | Some b' \<Rightarrow>
          (case castNumber s of
             None \<Rightarrow> None
           | Some s' \<Rightarrow>
               (case castNumber t of
                  None \<Rightarrow> None
                | Some t' \<Rightarrow> Some \<lparr>bpm = b', spo2 = s', temperature = t', timestamp = now\<rparr>)))"

section \<open>Collection operations\<close>

definition findOne :: "('a \<Rightarrow> bool) \<Rightarrow> 'a list \<Rightarrow> 'a option" where
  "findOne P xs = find P xs"

definition updateMany :: "('a \<Rightarrow> bool) \<Rightarrow> ('a \<Rightarrow> 'a) \<Rightarrow> 'a list \<Rightarrow> 'a list" where
  "updateMany P f xs = map (\<lambda>x. if P x then f x else x) xs"

fun updateOne :: "('a \<Rightarrow> bool) \<Rightarrow> ('a \<Rightarrow> 'a) \<Rightarrow> 'a list \<Rightarrow> 'a list" where
  "updateOne P f [] = []"
| "updateOne P f (x # xs) = (if P x then f x # xs else x # updateOne P f xs)"

fun deleteOne :: "('a \<Rightarrow> bool) \<Rightarrow> 'a list \<Rightarrow> 'a list" where
  "deleteOne P [] = []"
| "deleteOne P (x # xs) = (if P x then xs else x # deleteOne P xs)"

text \<open>
  \<open>sort({ createdAt: -1 })\<close> followed by taking the first document: a document
  with the greatest \<open>createdAt\<close>. MongoDB leaves the order of documents created at the
  same instant open; the model takes the one inserted first.
\<close>

fun latest :: "diagnosis list \<Rightarrow> diagnosis option" where
  "latest [] = None"
| "latest (d # ds) =
     (case latest ds of
        None \<Rightarrow> Some d
      | Some e \<Rightarrow> if createdAt d < createdAt e then Some e else Some d)"

definition findOne_latest :: "(diagnosis \<Rightarrow> bool) \<Rightarrow> diagnosis list \<Rightarrow> diagnosis option" where
  "findOne_latest P ds = latest (filter P ds)"

text \<open>
  \<open>diagnosis.save()\<close>: the \<open>pre('save')\<close> hook stamps \<open>updatedAt\<close>, the
  schema's validators run on the document, and the document replaces the stored one of
  the same \<open>_id\<close> or, if it is new, is inserted. A validation failure rejects the
  promise and stores nothing; the handlers answer it with status 500.
\<close>

definition save_diagnosis :: "diagnosis \<Rightarrow> nat \<Rightarrow> store \<Rightarrow> store option" where
  "save_diagnosis d now st =
     (let d' = d\<lparr>updatedAt := now\<rparr> in
      if \<not> diagnosis_valid d' then None
      else if list_ex (\<lambda>x. d_id x = d_id d') (diagnoses st)
      then Some (st\<lparr>diagnoses := map (\<lambda>x. if d_id x = d_id d' then d' else x) (diagnoses st)\<rparr>)
      else Some (st\<lparr>diagnoses := diagnoses st @ [d']\<rparr>))"

definition save_patient :: "patient \<Rightarrow> store \<Rightarrow> store option" where
  "save_patient p st =
     (if \<not> patient_valid p then None
      else Some (st\<lparr>patients := patients st @ [p]\<rparr>))"

section \<open>The classifier (utils/predictionLogic.js)\<close>

text \<open>
  The checks of \<open>predictDisease\<close> in the order of the source: the temperature test
  stands before the validation of the reading and before the two disease rules. All
  thresholds but \<open>37.8\<close> are whole numbers; \<open>37.8\<close> is taken as the decimal it is
  written as.
\<close>

definition predictDisease :: "jsval reading \<Rightarrow> string" where
  "predictDisease data =
     (if js_ge (temperature data) 25 then ''health is good''
      else if isNaN (bpm data) \<or> isNaN (spo2 data) \<or> isNaN (temperature data)
              \<or> bpm data = Number 0 \<or> spo2 data = Number 0 \<or> temperature data = Number 0
      then ''Undetermined''
      else if js_ge (temperature data) (189 / 5) \<and> js_lt (spo2 data) 95 \<and> js_gt (bpm data) 90
      then ''Disease A''
      else if js_le (temperature data) 36 \<and> js_ge (spo2 data) 96 \<and> js_lt (bpm data) 70
      then ''Disease B''
      else ''Undetermined'')"

section \<open>Kiosk routes (routes/esp32.js)\<close>

text \<open>
  The statuses that the queries of \<open>data_upload\<close> and of \<open>patient_start\<close> list
  (\<open>$in: ['collecting_data', 'prediction_made', 'pending_approval']\<close>), and
  \<open>new Diagnosis\<close> with the defaults of the schema.
\<close>

definition ongoing :: "status \<Rightarrow> bool" where
  "ongoing s = (s = collecting_data \<or> s = prediction_made \<or> s = pending_approval)"

definition new_diagnosis :: "objectId \<Rightarrow> objectId \<Rightarrow> objectId \<Rightarrow> string \<Rightarrow> nat \<Rightarrow> diagnosis" where
  "new_diagnosis i pid doc kiosk now =
     \<lparr>d_id = i, patientId = pid, doctorId = doc, kioskId = kiosk, sensorData = [],
      predictedDisease = ''N/A'', approvedDisease = ''N/A'', status = collecting_data,
      motorCommand = none, commandExecuted = False, createdAt = now, updatedAt = now\<rparr>"

text \<open>
  The two status updates of \<open>data_upload\<close>, one after the other on the status of
  the same document.
\<close>

definition advance_status :: "string \<Rightarrow> status \<Rightarrow> status" where
  "advance_status prediction s0 =
     (let s1 = (if s0 = collecting_data \<and> prediction \<noteq> ''Undetermined''
                then prediction_made else s0)
      in if s1 = prediction_made \<and> prediction \<noteq> ''Undetermined''
         then pending_approval else s1)"

text \<open>
  \<open>Patient.findOne({ kioskId, isActive: true })\<close>, and the query of \<open>data_upload\<close>
  for the latest Diagnosis of that patient and kiosk that is not yet completed.
\<close>

definition active_patient :: "string \<Rightarrow> store \<Rightarrow> patient option" where
  "active_patient kiosk st =
     findOne (\<lambda>p. p_kioskId p = trim kiosk \<and> isActive p) (patients st)"

definition ongoing_diagnosis :: "patient \<Rightarrow> string \<Rightarrow> store \<Rightarrow> diagnosis option" where
  "ongoing_diagnosis activePatient kiosk st =
     findOne_latest
       (\<lambda>d. patientId d = p_id activePatient \<and> kioskId d = kiosk \<and> ongoing (status d))
       (diagnoses st)"

text \<open>
  \<open>POST /api/esp32/data_upload\<close>. The result is the response (the error, or
  \<open>currentPrediction\<close>) and the store afterwards. When a field of the reading could
  not be cast, \<open>save\<close> rejects whatever the label is, and the handler answers 500
  like for every other failure of \<open>save\<close>.
\<close>

definition data_upload ::
  "string \<Rightarrow> jsval \<Rightarrow> jsval \<Rightarrow> jsval \<Rightarrow> nat \<Rightarrow> store \<Rightarrow> (error + string) \<times> store" where
  "data_upload kiosk b s t now st =
     (if kiosk = [] \<or> isNaN b \<or> isNaN s \<or> isNaN t then (Inl BadRequest, st)
      else
        case active_patient kiosk st of
          None \<Rightarrow> (Inl NotFound, st)
        | Some activePatient \<Rightarrow>
            let found = ongoing_diagnosis activePatient kiosk st;
                st1 = (case found of Some d \<Rightarrow> st | None \<Rightarrow> st\<lparr>nextId := Suc (nextId st)\<rparr>);
                diagnosisRecord = (case found of
                    Some d \<Rightarrow> d
                  | None \<Rightarrow> new_diagnosis (nextId st) (p_id activePatient)
                              (p_doctorId activePatient) kiosk now)
            in (case sensor_subdoc b s t now of
                  None \<Rightarrow> (Inl ServerError, st1)
                | Some subdoc \<Rightarrow>
                    let pushed = diagnosisRecord\<lparr>sensorData := sensorData diagnosisRecord @ [subdoc]\<rparr>;
                        prediction = predictDisease \<lparr>bpm = b, spo2 = s, temperature = t\<rparr>;
                        predicted = pushed\<lparr>predictedDisease := prediction\<rparr>;
                        advanced = predicted\<lparr>status := advance_status prediction (status predicted)\<rparr>
                    in (case save_diagnosis advanced now st1 of
                          None \<Rightarrow> (Inl ServerError, st1)
                        | Some st2 \<Rightarrow> (Inr prediction, st2))))"

text \<open>
  The query that \<open>get_motor_command\<close> and \<open>command_executed\<close> both run: the latest
  approved Diagnosis of the kiosk with a command that is not yet executed.
\<close>

definition pending_command :: "string \<Rightarrow> diagnosis \<Rightarrow> bool" where
  "pending_command kiosk d =
     (kioskId d = kiosk \<and> \<not> commandExecuted d \<and> status d = approved \<and> motorCommand d \<noteq> none)"

definition pending_diagnosis :: "string \<Rightarrow> store \<Rightarrow> diagnosis option" where
  "pending_diagnosis kiosk st = findOne_latest (pending_command kiosk) (diagnoses st)"

text \<open>\<open>GET /api/esp32/get_motor_command\<close>: a read of the store.\<close>

definition get_motor_command :: "string \<Rightarrow> store \<Rightarrow> error + motor_command" where
  "get_motor_command kiosk st =
     (if kiosk = [] then Inl BadRequest
      else case pending_diagnosis kiosk st of
             Some d \<Rightarrow> Inr (motorCommand d)
           | None \<Rightarrow> Inr none)"

text \<open>
  \<open>POST /api/esp32/command_executed\<close>. The handler reads \<open>kioskId\<close> and
  \<open>status\<close> of the body and nothing else; \<open>ce_diagnosisId\<close> is a further field a
  kiosk may send along.
\<close>

record command_executed_body =
  ce_kioskId :: string
  ce_status :: string
  ce_diagnosisId :: "objectId option"

definition command_executed ::
  "command_executed_body \<Rightarrow> nat \<Rightarrow> store \<Rightarrow> (error + objectId) \<times> store" where
  "command_executed body now st =
     (if ce_kioskId body = [] \<or> ce_status body = [] then (Inl BadRequest, st)
      else case pending_diagnosis (ce_kioskId body) st of
             Some d \<Rightarrow>
               (case save_diagnosis (d\<lparr>commandExecuted := True, status := medication_dispensed\<rparr>)
                       now st of
                  None \<Rightarrow> (Inl ServerError, st)
                | Some st1 \<Rightarrow> (Inr (d_id d), st1))
           | None \<Rightarrow> (Inl NotFound, st))"

section \<open>Doctor routes (routes/doctor.js)\<close>

text \<open>
  The routes run behind the middleware \<open>protect, doctor\<close>; \<open>doctor\<close> below is
  \<open>req.user.id\<close>, the id of the authenticated doctor.

  \<open>POST /api/doctor/patient/start\<close>. The two \<open>updateMany\<close> calls have taken effect
  when a later \<open>save\<close> fails.
\<close>

definition patient_start ::
  "string \<Rightarrow> rat \<Rightarrow> string option \<Rightarrow> string \<Rightarrow> objectId \<Rightarrow> nat \<Rightarrow> store
     \<Rightarrow> (error + objectId \<times> objectId \<times> string) \<times> store" where
  "patient_start nm ag phone kiosk doctor now st =
     (if nm = [] \<or> ag = 0 \<or> kiosk = [] then (Inl BadRequest, st)
      else
        let st1 = st\<lparr>patients := updateMany (\<lambda>p. p_kioskId p = trim kiosk \<and> isActive p)
                      (\<lambda>p. p\<lparr>isActive := False\<rparr>) (patients st)\<rparr>;
            st2 = st1\<lparr>diagnoses := updateMany (\<lambda>d. kioskId d = kiosk \<and> ongoing (status d))
                      (\<lambda>d. d\<lparr>status := completed\<rparr>) (diagnoses st1)\<rparr>;
            newPatient = \<lparr>p_id = nextId st2, name = trim nm, age = ag,
                      phoneNumber = map_option trim phone, p_doctorId = doctor,
                      p_kioskId = trim kiosk, isActive = True, p_createdAt = now\<rparr>;
            st3 = st2\<lparr>nextId := Suc (nextId st2)\<rparr>
        in (case save_patient newPatient st3 of
              None \<Rightarrow> (Inl ServerError, st3)
            | Some st4 \<Rightarrow>
                let newDiagnosis = new_diagnosis (nextId st4) (p_id newPatient) doctor kiosk now;
                    st5 = st4\<lparr>nextId := Suc (nextId st4)\<rparr>
                in (case save_diagnosis newDiagnosis now st5 of
                      None \<Rightarrow> (Inl ServerError, st5)
                    | Some st6 \<Rightarrow> (Inr (p_id newPatient, d_id newDiagnosis, kiosk), st6))))"

text \<open>
  \<open>Diagnosis.findOne({ _id: diagnosisId, doctorId: doctorId })\<close>, the query of
  \<open>approve\<close> and of \<open>delete_history\<close>.
\<close>

definition own_diagnosis :: "objectId \<Rightarrow> objectId \<Rightarrow> store \<Rightarrow> diagnosis option" where
  "own_diagnosis i doctor st = findOne (\<lambda>d. d_id d = i \<and> doctorId d = doctor) (diagnoses st)"

text \<open>\<open>POST /api/doctor/diagnosis/approve\<close>.\<close>

definition command_for :: "string \<Rightarrow> motor_command" where
  "command_for approvedDisease' =
     (if approvedDisease' = ''Disease A'' then activate_motor_1
      else if approvedDisease' = ''Disease B'' then activate_motor_2
      else none)"

definition approve ::
  "objectId option \<Rightarrow> string \<Rightarrow> objectId \<Rightarrow> nat \<Rightarrow> store
     \<Rightarrow> (error + objectId \<times> motor_command) \<times> store" where
  "approve diagnosisId disease doctor now st =
     (case diagnosisId of
        None \<Rightarrow> (Inl BadRequest, st)
      | Some i \<Rightarrow>
          if disease = [] then (Inl BadRequest, st)
          else (case own_diagnosis i doctor st of
                  None \<Rightarrow> (Inl NotFound, st)
                | Some d \<Rightarrow>
                    if status d = approved \<or> status d = medication_dispensed
                    then (Inl BadRequest, st)
                    else
                      let d1 = d\<lparr>approvedDisease := disease, status := approved,
                                 motorCommand := command_for disease\<rparr>
                      in (case save_diagnosis d1 now st of
                            None \<Rightarrow> (Inl ServerError, st)
                          | Some st1 \<Rightarrow>
                              (Inr (d_id d1, motorCommand d1),
                               st1\<lparr>patients := updateOne (\<lambda>p. p_id p = patientId d1)
                                     (\<lambda>p. p\<lparr>isActive := False\<rparr>) (patients st1)\<rparr>))))"

text \<open>\<open>DELETE /api/doctor/history/:id\<close>.\<close>

definition delete_history :: "objectId \<Rightarrow> objectId \<Rightarrow> store \<Rightarrow> (error + unit) \<times> store" where
  "delete_history i doctor st =
     (case own_diagnosis i doctor st of
        None \<Rightarrow> (Inl NotFound, st)
      | Some d \<Rightarrow>
          (Inr (), st\<lparr>diagnoses := deleteOne (\<lambda>d. d_id d = i \<and> doctorId d = doctor) (diagnoses st)\<rparr>))"

section \<open>Stores the handlers can reach, and their invariants\<close>

text \<open>
  The stores that arise from the empty one by the handlers that write: any number of
  requests, in any order, with any arguments and any clock readings.
  \<open>get_motor_command\<close> writes nothing.
\<close>

inductive reachable :: "store \<Rightarrow> bool" where
  init: "reachable empty_store"
| start: "reachable st \<Longrightarrow> reachable (snd (patient_start nm ag phone kiosk doctor now st))"
| upload: "reachable st \<Longrightarrow> reachable (snd (data_upload kiosk b s t now st))"
| review: "reachable st \<Longrightarrow> reachable (snd (approve diagnosisId disease doctor now st))"
| executed: "reachable st \<Longrightarrow> reachable (snd (command_executed body now st))"
| deleted: "reachable st \<Longrightarrow> reachable (snd (delete_history i doctor st))"

text \<open>
  A well-formed store: every stored Diagnosis passes the schema's validation, ids are
  drawn from the counter, and no two documents of a collection share an id.
\<close>

definition store_ok :: "store \<Rightarrow> bool" where
  "store_ok st =
     ((\<forall>d \<in> set (diagnoses st). diagnosis_valid d \<and> d_id d < nextId st)
      \<and> distinct (map d_id (diagnoses st))
      \<and> (\<forall>p \<in> set (patients st). p_id p < nextId st)
      \<and> distinct (map p_id (patients st)))"

text \<open>The execution flag of a Diagnosis is set exactly when it is dispensed.\<close>

definition exec_inv :: "store \<Rightarrow> bool" where
  "exec_inv st =
     (\<forall>d \<in> set (diagnoses st). commandExecuted d = (status d = medication_dispensed))"

text \<open>Two active patients with the same kiosk id are the same patient.\<close>

definition one_active :: "store \<Rightarrow> bool" where
  "one_active st =
     (\<forall>p \<in> set (patients st). \<forall>q \<in> set (patients st).
        isActive p \<and> isActive q \<and> p_kioskId p = p_kioskId q \<longrightarrow> p_id p = p_id q)"

section \<open>The documents the handlers store\<close>

text \<open>
  The Diagnosis that \<open>data_upload\<close> hands to \<open>save\<close> for the located Diagnosis
  \<open>d\<close>, the subdocument of the reading and its label; the one \<open>approve\<close> stores,
  the one \<open>command_executed\<close> stores, and the Patient that \<open>patient_start\<close> builds
  with the id \<open>i\<close>.
\<close>

definition uploaded :: "diagnosis \<Rightarrow> sensor_entry \<Rightarrow> string \<Rightarrow> nat \<Rightarrow> diagnosis" where
  "uploaded d subdoc prediction now =
     d\<lparr>sensorData := sensorData d @ [subdoc], predictedDisease := prediction,
       status := advance_status prediction (status d), updatedAt := now\<rparr>"

definition approved_doc :: "diagnosis \<Rightarrow> string \<Rightarrow> nat \<Rightarrow> diagnosis" where
  "approved_doc d disease now =
     d\<lparr>approvedDisease := disease, status := approved, motorCommand := command_for disease,
       updatedAt := now\<rparr>"

definition executed_doc :: "diagnosis \<Rightarrow> nat \<Rightarrow> diagnosis" where
  "executed_doc d now = d\<lparr>commandExecuted := True, status := medication_dispensed, updatedAt := now\<rparr>"

definition started_patient ::
  "string \<Rightarrow> rat \<Rightarrow> string option \<Rightarrow> string \<Rightarrow> objectId \<Rightarrow> nat \<Rightarrow> objectId \<Rightarrow> patient" where
  "started_patient nm ag phone kiosk doctor now i =
     \<lparr>p_id = i, name = trim nm, age = ag, phoneNumber = map_option trim phone,
      p_doctorId = doctor, p_kioskId = trim kiosk, isActive = True, p_createdAt = now\<rparr>"

section \<open>Observations on a store\<close>

text \<open>
  The stored Diagnosis with a given id; the active patients of a kiosk id; the
  Diagnoses of a kiosk whose status satisfies a predicate. A status is terminal when
  it is \<open>completed\<close> or \<open>medication_dispensed\<close>.
\<close>

definition findById :: "objectId \<Rightarrow> diagnosis list \<Rightarrow> diagnosis option" where
  "findById i ds = findOne (\<lambda>d. d_id d = i) ds"

definition active_subjects :: "string \<Rightarrow> store \<Rightarrow> patient list" where
  "active_subjects kiosk st = filter (\<lambda>p. p_kioskId p = kiosk \<and> isActive p) (patients st)"

definition sessions_with :: "(status \<Rightarrow> bool) \<Rightarrow> string \<Rightarrow> store \<Rightarrow> diagnosis list" where
  "sessions_with P kiosk st = filter (\<lambda>d. kioskId d = kiosk \<and> P (status d)) (diagnoses st)"

definition non_terminal :: "status \<Rightarrow> bool" where
  "non_terminal s = (s \<noteq> completed \<and> s \<noteq> medication_dispensed)"

section \<open>A run of the system\<close>

text \<open>
  Doctor 7 starts a session for a patient on kiosk \<open>K1\<close> at time 10: patient 0,
  Diagnosis 1. The kiosk uploads \<open>{bpm: 60, spo2: 98, temperature: 20}\<close>, which is
  labelled \<open>Disease B\<close>, and the doctor approves \<open>Disease B\<close>. The doctor then starts
  a second session on \<open>K1\<close> (patient 2, Diagnosis 3); the kiosk uploads the same
  reading and the doctor approves \<open>Disease A\<close>.
\<close>

definition kiosk_started :: store where
  "kiosk_started = snd (patient_start ''Asha'' 30 None ''K1'' 7 10 empty_store)"

definition kiosk_predicted :: store where
  "kiosk_predicted = snd (data_upload ''K1'' (Number 60) (Number 98) (Number 20) 11 kiosk_started)"

definition kiosk_approved :: store where
  "kiosk_approved = snd (approve (Some 1) ''Disease B'' 7 12 kiosk_predicted)"

definition kiosk_restarted :: store where
  "kiosk_restarted = snd (patient_start ''Ravi'' 41 None ''K1'' 7 13 kiosk_approved)"

definition second_predicted :: store where
  "second_predicted = snd (data_upload ''K1'' (Number 60) (Number 98) (Number 20) 14 kiosk_restarted)"

definition second_approved :: store where
  "second_approved = snd (approve (Some 3) ''Disease A'' 7 15 second_predicted)"

text \<open>
  Variants of the run: the doctor deletes Diagnosis 1 right after the start, which
  leaves an active patient without a session; the second session is started while the
  first is still pending approval; the kiosk confirms the command of the first session,
  sending the id 1 along.
\<close>

definition kiosk_orphaned :: store where
  "kiosk_orphaned = snd (delete_history 1 7 kiosk_started)"

definition pending_restarted :: store where
  "pending_restarted = snd (patient_start ''Ravi'' 41 None ''K1'' 7 13 kiosk_predicted)"

definition ack :: command_executed_body where
  "ack = \<lparr>ce_kioskId = ''K1'', ce_status = ''motor_2_activated'', ce_diagnosisId = Some 1\<rparr>"

definition kiosk_dispensed :: store where
  "kiosk_dispensed = snd (command_executed ack 16 kiosk_approved)"

section \<open>Lemmas\<close>

subsection \<open>Collections\<close>

lemma findOne_Some: "findOne P xs = Some x \<Longrightarrow> x \<in> set xs \<and> P x"
  by (auto simp: findOne_def find_Some_iff)

lemma findOne_None: "findOne P xs = None \<longleftrightarrow> (\<forall>x \<in> set xs. \<not> P x)"
  by (auto simp: findOne_def find_None_iff)

lemma latest_None: "latest ds = None \<longleftrightarrow> ds = []"
  by (induction ds) (auto split: option.splits)

lemma latest_Some: "latest ds = Some d \<Longrightarrow> d \<in> set ds \<and> (\<forall>e \<in> set ds. createdAt e \<le> createdAt d)"
proof (induction ds arbitrary: d)
  case Nil
  then show ?case by simp
next
  case (Cons a ds)
  show ?case
  proof (cases "latest ds")
    case None
    then have "ds = []" by (simp add: latest_None)
    with Cons.prems show ?thesis by simp
  next
    case (Some e)
    from Cons.IH [OF Some] have e: "e \<in> set ds" "\<forall>x \<in> set ds. createdAt x \<le> createdAt e"
      by simp_all
    show ?thesis
    proof (cases "createdAt a < createdAt e")
      case True
      with Some Cons.prems have "d = e" by simp
      with e True show ?thesis by auto
    next
      case False
      with Some Cons.prems have "d = a" by simp
      with e False show ?thesis by force
    qed
  qed
qed

lemma findOne_latest_Some:
  "findOne_latest P ds = Some d \<Longrightarrow>
     d \<in> set ds \<and> P d \<and> (\<forall>e \<in> set ds. P e \<longrightarrow> createdAt e \<le> createdAt d)"
  unfolding findOne_latest_def by (drule latest_Some) auto

lemma findOne_latest_None: "findOne_latest P ds = None \<longleftrightarrow> (\<forall>d \<in> set ds. \<not> P d)"
  by (simp add: findOne_latest_def latest_None filter_empty_conv)


lemma ongoing_diagnosis_Some:
  "ongoing_diagnosis p kiosk st = Some d \<Longrightarrow>
     d \<in> set (diagnoses st) \<and> patientId d = p_id p \<and> kioskId d = kiosk \<and> ongoing (status d)"
  unfolding ongoing_diagnosis_def by (drule findOne_latest_Some) simp

lemma ongoing_diagnosis_None:
  "ongoing_diagnosis p kiosk st = None \<longleftrightarrow>
     (\<forall>d \<in> set (diagnoses st). \<not> (patientId d = p_id p \<and> kioskId d = kiosk \<and> ongoing (status d)))"
  by (simp add: ongoing_diagnosis_def findOne_latest_None)

lemma pending_diagnosis_Some:
  "pending_diagnosis kiosk st = Some d \<Longrightarrow>
     d \<in> set (diagnoses st) \<and> pending_command kiosk d
     \<and> (\<forall>e \<in> set (diagnoses st). pending_command kiosk e \<longrightarrow> createdAt e \<le> createdAt d)"
  unfolding pending_diagnosis_def by (rule findOne_latest_Some)

lemma pending_diagnosis_None:
  "pending_diagnosis kiosk st = None \<longleftrightarrow> (\<forall>d \<in> set (diagnoses st). \<not> pending_command kiosk d)"
  by (simp add: pending_diagnosis_def findOne_latest_None)

lemma own_diagnosis_Some:
  "own_diagnosis i doctor st = Some d \<Longrightarrow> d \<in> set (diagnoses st) \<and> d_id d = i \<and> doctorId d = doctor"
  unfolding own_diagnosis_def by (drule findOne_Some) simp

lemma own_diagnosis_None:
  "own_diagnosis i doctor st = None \<longleftrightarrow>
     (\<forall>d \<in> set (diagnoses st). \<not> (d_id d = i \<and> doctorId d = doctor))"
  by (simp add: own_diagnosis_def findOne_None)

lemma set_updateMany:
  "set (updateMany P f xs) = {x \<in> set xs. \<not> P x} \<union> f ` {x \<in> set xs. P x}"
  by (auto simp: updateMany_def)

lemma map_updateMany: "(\<And>x. g (f x) = g x) \<Longrightarrow> map g (updateMany P f xs) = map g xs"
  by (simp add: updateMany_def)

lemma map_updateOne: "(\<And>x. g (f x) = g x) \<Longrightarrow> map g (updateOne P f xs) = map g xs"
  by (induction xs) auto

lemma set_updateOne: "x \<in> set (updateOne P f xs) \<Longrightarrow> x \<in> set xs \<or> (\<exists>y \<in> set xs. P y \<and> x = f y)"
  by (induction xs) (auto split: if_splits)

lemma set_deleteOne: "x \<in> set (deleteOne P xs) \<Longrightarrow> x \<in> set xs"
  by (induction xs) (auto split: if_splits)

lemma distinct_deleteOne: "distinct (map g xs) \<Longrightarrow> distinct (map g (deleteOne P xs))"
  by (induction xs) (auto dest: set_deleteOne)

subsection \<open>Saving\<close>

lemma diagnosis_valid_updatedAt [simp]: "diagnosis_valid (d\<lparr>updatedAt := n\<rparr>) = diagnosis_valid d"
  by (simp add: diagnosis_valid_def)

lemma save_diagnosis_None: "save_diagnosis d now st = None \<longleftrightarrow> \<not> diagnosis_valid d"
  by (simp add: save_diagnosis_def Let_def)

lemma save_diagnosis_existing:
  assumes "x \<in> set (diagnoses st)" and "d_id d = d_id x" and "diagnosis_valid d"
  shows "save_diagnosis d now st =
     Some (st\<lparr>diagnoses := map (\<lambda>y. if d_id y = d_id x then d\<lparr>updatedAt := now\<rparr> else y) (diagnoses st)\<rparr>)"
  using assms by (auto simp: save_diagnosis_def Let_def list_ex_iff)

lemma save_diagnosis_new:
  assumes "\<forall>x \<in> set (diagnoses st). d_id x \<noteq> d_id d" and "diagnosis_valid d"
  shows "save_diagnosis d now st = Some (st\<lparr>diagnoses := diagnoses st @ [d\<lparr>updatedAt := now\<rparr>]\<rparr>)"
  using assms by (auto simp: save_diagnosis_def Let_def list_ex_iff)

lemma save_diagnosis_fields:
  "save_diagnosis d now st = Some st' \<Longrightarrow> patients st' = patients st \<and> nextId st' = nextId st"
  by (auto simp: save_diagnosis_def Let_def split: if_splits)

lemma save_diagnosis_set:
  "save_diagnosis d now st = Some st' \<Longrightarrow> x \<in> set (diagnoses st') \<Longrightarrow>
     x \<in> set (diagnoses st) \<or> x = d\<lparr>updatedAt := now\<rparr>"
  by (auto simp: save_diagnosis_def Let_def split: if_splits)

lemma save_diagnosis_ids:
  "save_diagnosis d now st = Some st' \<Longrightarrow>
     map d_id (diagnoses st') =
       (if d_id d \<in> d_id ` set (diagnoses st) then map d_id (diagnoses st)
        else map d_id (diagnoses st) @ [d_id d])"
  by (auto simp: save_diagnosis_def Let_def list_ex_iff split: if_splits intro: rev_image_eqI)

subsection \<open>Invariants\<close>

lemma store_ok_empty: "store_ok empty_store"
  by (simp add: store_ok_def empty_store_def)

lemma store_ok_save_diagnosis:
  assumes "store_ok st" and "save_diagnosis d now st = Some st'" and "d_id d < nextId st"
  shows "store_ok st'"
proof -
  from assms(2) have v: "diagnosis_valid d"
    using save_diagnosis_None [of d now st] by auto
  have 1: "diagnosis_valid x \<and> d_id x < nextId st'" if "x \<in> set (diagnoses st')" for x
  proof -
    from save_diagnosis_set [OF assms(2) that]
    have "x \<in> set (diagnoses st) \<or> x = d\<lparr>updatedAt := now\<rparr>" .
    then show ?thesis
      using assms(1,3) v save_diagnosis_fields [OF assms(2)] by (auto simp: store_ok_def)
  qed
  have 2: "distinct (map d_id (diagnoses st'))"
    using assms(1) save_diagnosis_ids [OF assms(2)] by (auto simp: store_ok_def)
  show ?thesis
    using 1 2 assms(1) save_diagnosis_fields [OF assms(2)] by (simp add: store_ok_def)
qed

lemma store_ok_nextId: "store_ok st \<Longrightarrow> store_ok (st\<lparr>nextId := Suc (nextId st)\<rparr>)"
  by (auto simp: store_ok_def less_Suc_eq)

lemma store_ok_patient_start:
  assumes "store_ok st"
  shows "store_ok (snd (patient_start nm ag phone kiosk doctor now st))"
proof (cases "nm = [] \<or> ag = 0 \<or> kiosk = []")
  case True
  with assms show ?thesis by (simp add: patient_start_def)
next
  case False
  let ?st1 = "st\<lparr>patients := updateMany (\<lambda>p. p_kioskId p = trim kiosk \<and> isActive p)
      (\<lambda>p. p\<lparr>isActive := False\<rparr>) (patients st)\<rparr>"
  let ?st2 = "?st1\<lparr>diagnoses := updateMany (\<lambda>d. kioskId d = kiosk \<and> ongoing (status d))
      (\<lambda>d. d\<lparr>status := completed\<rparr>) (diagnoses ?st1)\<rparr>"
  let ?np = "\<lparr>p_id = nextId ?st2, name = trim nm, age = ag,
      phoneNumber = map_option trim phone, p_doctorId = doctor,
      p_kioskId = trim kiosk, isActive = True, p_createdAt = now\<rparr>"
  let ?st3 = "?st2\<lparr>nextId := Suc (nextId ?st2)\<rparr>"
  have ok3: "store_ok ?st3"
    using assms unfolding store_ok_def
    by (auto simp: set_updateMany map_updateMany diagnosis_valid_def)
  show ?thesis
  proof (cases "patient_valid ?np")
    case invalid: False
    with False have "patient_start nm ag phone kiosk doctor now st = (Inl ServerError, ?st3)"
      by (simp add: patient_start_def Let_def save_patient_def)
    with ok3 show ?thesis by simp
  next
    case valid: True
    let ?st4 = "?st3\<lparr>patients := patients ?st3 @ [?np]\<rparr>"
    let ?nd = "new_diagnosis (nextId ?st4) (p_id ?np) doctor kiosk now"
    let ?st5 = "?st4\<lparr>nextId := Suc (nextId ?st4)\<rparr>"
    have ok5: "store_ok ?st5"
      using assms unfolding store_ok_def
      by (auto simp: set_updateMany map_updateMany diagnosis_valid_def)
    have lt: "d_id ?nd < nextId ?st5" by (simp add: new_diagnosis_def)
    show ?thesis
    proof (cases "save_diagnosis ?nd now ?st5")
      case None
      with False valid have "patient_start nm ag phone kiosk doctor now st = (Inl ServerError, ?st5)"
        by (simp add: patient_start_def Let_def save_patient_def)
      with ok5 show ?thesis by simp
    next
      case (Some st6)
      with False valid have "snd (patient_start nm ag phone kiosk doctor now st) = st6"
        by (simp add: patient_start_def Let_def save_patient_def)
      with store_ok_save_diagnosis [OF ok5 Some lt] show ?thesis by simp
    qed
  qed
qed

subsection \<open>The outcomes of \<open>data_upload\<close>\<close>

lemma advance_status_eq:
  "advance_status l s0 =
     (if l \<noteq> ''Undetermined'' \<and> (s0 = collecting_data \<or> s0 = prediction_made)
      then pending_approval else s0)"
  by (simp add: advance_status_def Let_def)

lemma diagnosis_valid_status [simp]: "diagnosis_valid (d\<lparr>status := x\<rparr>) = diagnosis_valid d"
  by (simp add: diagnosis_valid_def)

lemma data_upload_bad:
  "kiosk = [] \<or> isNaN b \<or> isNaN s \<or> isNaN t \<Longrightarrow>
     data_upload kiosk b s t now st = (Inl BadRequest, st)"
  by (simp add: data_upload_def)

lemma data_upload_unassigned:
  assumes "kiosk \<noteq> []" "\<not> isNaN b" "\<not> isNaN s" "\<not> isNaN t"
    and "active_patient kiosk st = None"
  shows "data_upload kiosk b s t now st = (Inl NotFound, st)"
  using assms by (simp add: data_upload_def)

lemma diagnosis_valid_uploaded:
  "diagnosis_valid (uploaded d e l now) =
     (kioskId d \<noteq> [] \<and> l \<in> set disease_enum \<and> approvedDisease d \<in> set disease_enum)"
  by (simp add: uploaded_def diagnosis_valid_def)

lemma data_upload_cast_error:
  assumes "kiosk \<noteq> []" "\<not> isNaN b" "\<not> isNaN s" "\<not> isNaN t"
    and "active_patient kiosk st = Some p"
    and "sensor_subdoc b s t now = None"
  shows "data_upload kiosk b s t now st =
     (Inl ServerError,
      case ongoing_diagnosis p kiosk st of Some d \<Rightarrow> st | None \<Rightarrow> st\<lparr>nextId := Suc (nextId st)\<rparr>)"
  using assms by (simp add: data_upload_def Let_def)

lemma data_upload_found:
  assumes "kiosk \<noteq> []" "\<not> isNaN b" "\<not> isNaN s" "\<not> isNaN t"
    and "active_patient kiosk st = Some p"
    and "ongoing_diagnosis p kiosk st = Some d"
    and "sensor_subdoc b s t now = Some e"
    and "predictDisease \<lparr>bpm = b, spo2 = s, temperature = t\<rparr> = l"
  shows "data_upload kiosk b s t now st =
     (if diagnosis_valid (uploaded d e l now)
      then (Inr l,
            st\<lparr>diagnoses := map (\<lambda>y. if d_id y = d_id d then uploaded d e l now else y)
                  (diagnoses st)\<rparr>)
      else (Inl ServerError, st))"
proof -
  from assms(6) have "list_ex (\<lambda>x. d_id x = d_id d) (diagnoses st)"
    by (auto simp: list_ex_iff dest: ongoing_diagnosis_Some)
  with assms show ?thesis
    by (simp add: data_upload_def Let_def save_diagnosis_def uploaded_def diagnosis_valid_def)
qed

lemma data_upload_fresh:
  assumes "kiosk \<noteq> []" "\<not> isNaN b" "\<not> isNaN s" "\<not> isNaN t"
    and "active_patient kiosk st = Some p"
    and "ongoing_diagnosis p kiosk st = None"
    and "\<forall>d \<in> set (diagnoses st). d_id d \<noteq> nextId st"
    and "sensor_subdoc b s t now = Some e"
    and "predictDisease \<lparr>bpm = b, spo2 = s, temperature = t\<rparr> = l"
  shows "data_upload kiosk b s t now st =
     (if l \<in> set disease_enum
      then (Inr l,
            st\<lparr>nextId := Suc (nextId st),
               diagnoses := diagnoses st
                 @ [uploaded (new_diagnosis (nextId st) (p_id p) (p_doctorId p) kiosk now) e l now]\<rparr>)
      else (Inl ServerError, st\<lparr>nextId := Suc (nextId st)\<rparr>))"
proof -
  from assms(7) have "\<not> list_ex (\<lambda>x. d_id x = nextId st) (diagnoses st)"
    by (auto simp: list_ex_iff)
  with assms show ?thesis
    by (simp add: data_upload_def Let_def save_diagnosis_def uploaded_def diagnosis_valid_def
        new_diagnosis_def disease_enum_def)
qed

subsection \<open>The outcomes of \<open>approve\<close>, \<open>command_executed\<close> and \<open>delete_history\<close>\<close>

lemma approve_found:
  assumes "disease \<noteq> []"
    and "own_diagnosis i doctor st = Some d"
  shows "approve (Some i) disease doctor now st =
     (if status d = approved \<or> status d = medication_dispensed then (Inl BadRequest, st)
      else if diagnosis_valid (approved_doc d disease now)
      then (Inr (i, command_for disease),
            st\<lparr>diagnoses := map (\<lambda>y. if d_id y = i then approved_doc d disease now else y)
                  (diagnoses st),
               patients := updateOne (\<lambda>p. p_id p = patientId d) (\<lambda>p. p\<lparr>isActive := False\<rparr>)
                  (patients st)\<rparr>)
      else (Inl ServerError, st))"
proof -
  from assms(2) have "list_ex (\<lambda>x. d_id x = i) (diagnoses st)" and "d_id d = i"
    by (auto simp: list_ex_iff dest: own_diagnosis_Some)
  with assms show ?thesis
    by (simp add: approve_def Let_def save_diagnosis_def approved_doc_def diagnosis_valid_def)
qed

lemma approve_not_found:
  assumes "own_diagnosis i doctor st = None"
  shows "approve (Some i) disease doctor now st =
     (if disease = [] then (Inl BadRequest, st) else (Inl NotFound, st))"
  using assms by (simp add: approve_def)

lemma command_executed_found:
  assumes "ce_kioskId body \<noteq> []" "ce_status body \<noteq> []"
    and "pending_diagnosis (ce_kioskId body) st = Some d"
  shows "command_executed body now st =
     (if diagnosis_valid d
      then (Inr (d_id d),
            st\<lparr>diagnoses := map (\<lambda>y. if d_id y = d_id d then executed_doc d now else y)
                  (diagnoses st)\<rparr>)
      else (Inl ServerError, st))"
proof -
  from assms(3) have "list_ex (\<lambda>x. d_id x = d_id d) (diagnoses st)"
    by (auto simp: list_ex_iff dest: pending_diagnosis_Some)
  with assms show ?thesis
    by (simp add: command_executed_def Let_def save_diagnosis_def executed_doc_def
        diagnosis_valid_def)
qed

lemma command_executed_none:
  assumes "ce_kioskId body \<noteq> []" "ce_status body \<noteq> []"
    and "pending_diagnosis (ce_kioskId body) st = None"
  shows "command_executed body now st = (Inl NotFound, st)"
  using assms by (simp add: command_executed_def)

lemma command_executed_bad:
  "ce_kioskId body = [] \<or> ce_status body = [] \<Longrightarrow>
     command_executed body now st = (Inl BadRequest, st)"
  by (simp add: command_executed_def)

subsection \<open>Every reachable store is well formed\<close>

lemma store_ok_map_diagnoses:
  assumes "store_ok st" and "diagnosis_valid d'" and "d_id d' = i"
  shows "store_ok (st\<lparr>diagnoses := map (\<lambda>y. if d_id y = i then d' else y) (diagnoses st)\<rparr>)"
proof -
  have "(d_id \<circ> (\<lambda>y. if d_id y = i then d' else y)) = d_id"
    using assms(3) by auto
  then show ?thesis
    using assms unfolding store_ok_def by auto
qed

lemma store_ok_data_upload:
  assumes "store_ok st"
  shows "store_ok (snd (data_upload kiosk b s t now st))"
proof (cases "kiosk = [] \<or> isNaN b \<or> isNaN s \<or> isNaN t")
  case True
  with assms show ?thesis by (simp add: data_upload_bad)
next
  case ok: False
  show ?thesis
  proof (cases "active_patient kiosk st")
    case None
    with ok assms show ?thesis by (simp add: data_upload_unassigned)
  next
    case (Some p)
    let ?l = "predictDisease \<lparr>bpm = b, spo2 = s, temperature = t\<rparr>"
    show ?thesis
    proof (cases "sensor_subdoc b s t now")
      case None
      with ok Some assms store_ok_nextId [OF assms] show ?thesis
        by (simp add: data_upload_cast_error split: option.splits)
    next
      case subdoc: (Some e)
      show ?thesis
      proof (cases "ongoing_diagnosis p kiosk st")
        case None
        from assms have fresh: "\<forall>d \<in> set (diagnoses st). d_id d \<noteq> nextId st"
          by (auto simp: store_ok_def)
        let ?d = "uploaded (new_diagnosis (nextId st) (p_id p) (p_doctorId p) kiosk now) e ?l now"
        have "store_ok (st\<lparr>nextId := Suc (nextId st), diagnoses := diagnoses st @ [?d]\<rparr>)"
          if "diagnosis_valid ?d"
          using assms that unfolding store_ok_def
          by (auto simp: less_Suc_eq uploaded_def new_diagnosis_def)
        moreover have "diagnosis_valid ?d" if "?l \<in> set disease_enum"
          using that ok by (simp add: diagnosis_valid_uploaded new_diagnosis_def disease_enum_def)
        ultimately show ?thesis
          using ok Some None fresh subdoc store_ok_nextId [OF assms]
          by (simp add: data_upload_fresh [where e = e and l = ?l])
      next
        case found: (Some d)
        have "d_id (uploaded d e ?l now) = d_id d" by (simp add: uploaded_def)
        with ok Some found subdoc show ?thesis
          by (simp add: data_upload_found [where e = e and l = ?l] assms store_ok_map_diagnoses)
      qed
    qed
  qed
qed

lemma store_ok_deactivate:
  assumes "store_ok st"
  shows "store_ok (st\<lparr>patients := updateOne P (\<lambda>p. p\<lparr>isActive := False\<rparr>) (patients st)\<rparr>)"
proof -
  have "p_id p < nextId st" if "p \<in> set (updateOne P (\<lambda>p. p\<lparr>isActive := False\<rparr>) (patients st))" for p
    using set_updateOne [OF that] assms by (auto simp: store_ok_def)
  then show ?thesis
    using assms unfolding store_ok_def by (simp add: map_updateOne)
qed

lemma store_ok_approve:
  assumes "store_ok st"
  shows "store_ok (snd (approve diagnosisId disease doctor now st))"
proof (cases diagnosisId)
  case None
  with assms show ?thesis by (simp add: approve_def)
next
  case (Some i)
  show ?thesis
  proof (cases "own_diagnosis i doctor st")
    case None
    with Some assms show ?thesis by (simp add: approve_not_found)
  next
    case found: (Some d)
    show ?thesis
    proof (cases "disease = []")
      case True
      with Some assms show ?thesis by (simp add: approve_def)
    next
      case False
      have id: "d_id (approved_doc d disease now) = i"
        using found by (auto simp: approved_doc_def dest: own_diagnosis_Some)
      have "store_ok (st\<lparr>diagnoses := map (\<lambda>y. if d_id y = i then approved_doc d disease now else y)
                  (diagnoses st),
               patients := updateOne (\<lambda>p. p_id p = patientId d) (\<lambda>p. p\<lparr>isActive := False\<rparr>)
                  (patients st)\<rparr>)"
        if "diagnosis_valid (approved_doc d disease now)"
        using store_ok_deactivate [OF store_ok_map_diagnoses [OF assms that id]] by simp
      with Some False assms show ?thesis
        by (simp add: approve_found [OF False found])
    qed
  qed
qed

lemma store_ok_command_executed:
  assumes "store_ok st"
  shows "store_ok (snd (command_executed body now st))"
proof (cases "ce_kioskId body = [] \<or> ce_status body = []")
  case True
  with assms show ?thesis by (simp add: command_executed_bad)
next
  case ok: False
  show ?thesis
  proof (cases "pending_diagnosis (ce_kioskId body) st")
    case None
    with ok assms show ?thesis by (simp add: command_executed_none)
  next
    case (Some d)
    have "diagnosis_valid (executed_doc d now) = diagnosis_valid d" "d_id (executed_doc d now) = d_id d"
      by (simp_all add: executed_doc_def diagnosis_valid_def)
    with ok Some assms show ?thesis
      by (simp add: command_executed_found store_ok_map_diagnoses)
  qed
qed

lemma store_ok_delete_history:
  assumes "store_ok st"
  shows "store_ok (snd (delete_history i doctor st))"
  using assms unfolding store_ok_def
  by (auto simp: delete_history_def distinct_deleteOne split: option.splits dest: set_deleteOne)

lemma reachable_store_ok: "reachable st \<Longrightarrow> store_ok st"
  by (induction rule: reachable.induct)
    (simp_all add: store_ok_empty store_ok_patient_start store_ok_data_upload store_ok_approve
      store_ok_command_executed store_ok_delete_history)

subsection \<open>The outcomes of \<open>patient_start\<close>\<close>

lemma patient_start_bad:
  "nm = [] \<or> ag = 0 \<or> kiosk = [] \<Longrightarrow>
     patient_start nm ag phone kiosk doctor now st = (Inl BadRequest, st)"
  by (simp add: patient_start_def)

lemma patient_start_invalid:
  assumes "\<not> (nm = [] \<or> ag = 0 \<or> kiosk = [])"
    and "\<not> patient_valid (started_patient nm ag phone kiosk doctor now (nextId st))"
  shows "fst (patient_start nm ag phone kiosk doctor now st) = Inl ServerError"
    and "patients (snd (patient_start nm ag phone kiosk doctor now st)) =
           updateMany (\<lambda>p. p_kioskId p = trim kiosk \<and> isActive p) (\<lambda>p. p\<lparr>isActive := False\<rparr>)
             (patients st)"
    and "diagnoses (snd (patient_start nm ag phone kiosk doctor now st)) =
           updateMany (\<lambda>d. kioskId d = kiosk \<and> ongoing (status d)) (\<lambda>d. d\<lparr>status := completed\<rparr>)
             (diagnoses st)"
  using assms by (simp_all add: patient_start_def Let_def save_patient_def started_patient_def)

lemma patient_start_ok:
  assumes "\<not> (nm = [] \<or> ag = 0 \<or> kiosk = [])"
    and "patient_valid (started_patient nm ag phone kiosk doctor now (nextId st))"
    and "\<forall>d \<in> set (diagnoses st). d_id d \<noteq> Suc (nextId st)"
  shows "fst (patient_start nm ag phone kiosk doctor now st) = Inr (nextId st, Suc (nextId st), kiosk)"
    and "patients (snd (patient_start nm ag phone kiosk doctor now st)) =
           updateMany (\<lambda>p. p_kioskId p = trim kiosk \<and> isActive p) (\<lambda>p. p\<lparr>isActive := False\<rparr>)
             (patients st)
           @ [started_patient nm ag phone kiosk doctor now (nextId st)]"
    and "diagnoses (snd (patient_start nm ag phone kiosk doctor now st)) =
           updateMany (\<lambda>d. kioskId d = kiosk \<and> ongoing (status d)) (\<lambda>d. d\<lparr>status := completed\<rparr>)
             (diagnoses st)
           @ [new_diagnosis (Suc (nextId st)) (nextId st) doctor kiosk now]"
    and "nextId (snd (patient_start nm ag phone kiosk doctor now st)) = Suc (Suc (nextId st))"
proof -
  from assms(3)
  have "\<not> list_ex (\<lambda>x. d_id x = Suc (nextId st))
          (updateMany (\<lambda>d. kioskId d = kiosk \<and> ongoing (status d)) (\<lambda>d. d\<lparr>status := completed\<rparr>)
             (diagnoses st))"
    by (auto simp: list_ex_iff set_updateMany)
  with assms(1,2)
  show "fst (patient_start nm ag phone kiosk doctor now st) = Inr (nextId st, Suc (nextId st), kiosk)"
    and "patients (snd (patient_start nm ag phone kiosk doctor now st)) =
           updateMany (\<lambda>p. p_kioskId p = trim kiosk \<and> isActive p) (\<lambda>p. p\<lparr>isActive := False\<rparr>)
             (patients st)
           @ [started_patient nm ag phone kiosk doctor now (nextId st)]"
    and "diagnoses (snd (patient_start nm ag phone kiosk doctor now st)) =
           updateMany (\<lambda>d. kioskId d = kiosk \<and> ongoing (status d)) (\<lambda>d. d\<lparr>status := completed\<rparr>)
             (diagnoses st)
           @ [new_diagnosis (Suc (nextId st)) (nextId st) doctor kiosk now]"
    and "nextId (snd (patient_start nm ag phone kiosk doctor now st)) = Suc (Suc (nextId st))"
    by (simp_all add: patient_start_def Let_def save_patient_def started_patient_def
        save_diagnosis_def new_diagnosis_def diagnosis_valid_def disease_enum_def)
qed

lemma patient_start_Inr:
  assumes "fst (patient_start nm ag phone kiosk doctor now st) = Inr r"
  shows "\<not> (nm = [] \<or> ag = 0 \<or> kiosk = [])"
    and "patient_valid (started_patient nm ag phone kiosk doctor now (nextId st))"
proof -
  show 1: "\<not> (nm = [] \<or> ag = 0 \<or> kiosk = [])"
    using assms by (auto simp: patient_start_def)
  show "patient_valid (started_patient nm ag phone kiosk doctor now (nextId st))"
    using assms patient_start_invalid(1) [OF 1] by fastforce
qed

subsection \<open>The execution flag and the status\<close>

lemma exec_inv_fields [simp]:
  "exec_inv (st\<lparr>nextId := n\<rparr>) = exec_inv st"
  "exec_inv (st\<lparr>patients := ps\<rparr>) = exec_inv st"
  by (simp_all add: exec_inv_def)

lemma exec_inv_save_diagnosis:
  assumes "exec_inv st" and "save_diagnosis d now st = Some st'"
    and "commandExecuted d = (status d = medication_dispensed)"
  shows "exec_inv st'"
  unfolding exec_inv_def
proof
  fix x assume "x \<in> set (diagnoses st')"
  from save_diagnosis_set [OF assms(2) this] assms(1,3)
  show "commandExecuted x = (status x = medication_dispensed)"
    by (auto simp: exec_inv_def)
qed

lemma exec_inv_completed:
  assumes "exec_inv st"
  shows "exec_inv (st\<lparr>diagnoses := updateMany (\<lambda>d. kioskId d = kiosk \<and> ongoing (status d))
            (\<lambda>d. d\<lparr>status := completed\<rparr>) (diagnoses st)\<rparr>)"
  using assms by (auto simp: exec_inv_def set_updateMany ongoing_def)

lemma exec_inv_patient_start:
  assumes "exec_inv st"
  shows "exec_inv (snd (patient_start nm ag phone kiosk doctor now st))"
proof (cases "nm = [] \<or> ag = 0 \<or> kiosk = []")
  case True
  with assms show ?thesis by (simp add: patient_start_bad)
next
  case False
  let ?st1 = "st\<lparr>patients := updateMany (\<lambda>p. p_kioskId p = trim kiosk \<and> isActive p)
      (\<lambda>p. p\<lparr>isActive := False\<rparr>) (patients st)\<rparr>"
  let ?st2 = "?st1\<lparr>diagnoses := updateMany (\<lambda>d. kioskId d = kiosk \<and> ongoing (status d))
      (\<lambda>d. d\<lparr>status := completed\<rparr>) (diagnoses ?st1)\<rparr>"
  let ?np = "\<lparr>p_id = nextId ?st2, name = trim nm, age = ag,
      phoneNumber = map_option trim phone, p_doctorId = doctor,
      p_kioskId = trim kiosk, isActive = True, p_createdAt = now\<rparr>"
  let ?st3 = "?st2\<lparr>nextId := Suc (nextId ?st2)\<rparr>"
  have ok3: "exec_inv ?st3"
    using assms by (auto simp: exec_inv_def set_updateMany ongoing_def)
  show ?thesis
  proof (cases "patient_valid ?np")
    case invalid: False
    with False have "patient_start nm ag phone kiosk doctor now st = (Inl ServerError, ?st3)"
      by (simp add: patient_start_def Let_def save_patient_def)
    with ok3 show ?thesis by simp
  next
    case valid: True
    let ?st4 = "?st3\<lparr>patients := patients ?st3 @ [?np]\<rparr>"
    let ?nd = "new_diagnosis (nextId ?st4) (p_id ?np) doctor kiosk now"
    let ?st5 = "?st4\<lparr>nextId := Suc (nextId ?st4)\<rparr>"
    have ok5: "exec_inv ?st5"
      using assms by (auto simp: exec_inv_def set_updateMany ongoing_def)
    have nd: "commandExecuted ?nd = (status ?nd = medication_dispensed)"
      by (simp add: new_diagnosis_def)
    show ?thesis
    proof (cases "save_diagnosis ?nd now ?st5")
      case None
      with False valid have "patient_start nm ag phone kiosk doctor now st = (Inl ServerError, ?st5)"
        by (simp add: patient_start_def Let_def save_patient_def)
      with ok5 show ?thesis by simp
    next
      case (Some st6)
      with False valid have "snd (patient_start nm ag phone kiosk doctor now st) = st6"
        by (simp add: patient_start_def Let_def save_patient_def)
      with exec_inv_save_diagnosis [OF ok5 Some nd] show ?thesis by simp
    qed
  qed
qed

lemma exec_inv_data_upload:
  assumes "exec_inv st"
  shows "exec_inv (snd (data_upload kiosk b s t now st))"
proof (cases "kiosk = [] \<or> isNaN b \<or> isNaN s \<or> isNaN t")
  case True
  with assms show ?thesis by (simp add: data_upload_bad)
next
  case ok: False
  show ?thesis
  proof (cases "active_patient kiosk st")
    case None
    with ok assms show ?thesis by (simp add: data_upload_unassigned)
  next
    case (Some p)
    let ?l = "predictDisease \<lparr>bpm = b, spo2 = s, temperature = t\<rparr>"
    show ?thesis
    proof (cases "sensor_subdoc b s t now")
      case None
      with ok Some assms show ?thesis
        by (simp add: data_upload_cast_error split: option.splits)
    next
      case subdoc: (Some e)
      show ?thesis
      proof (cases "ongoing_diagnosis p kiosk st")
        case None
        let ?st1 = "st\<lparr>nextId := Suc (nextId st)\<rparr>"
        let ?d0 = "new_diagnosis (nextId st) (p_id p) (p_doctorId p) kiosk now"
        let ?d = "?d0\<lparr>sensorData := sensorData ?d0 @ [e], predictedDisease := ?l,
             status := advance_status ?l (status ?d0)\<rparr>"
        have d: "commandExecuted ?d = (status ?d = medication_dispensed)"
          by (simp add: new_diagnosis_def advance_status_eq)
        show ?thesis
        proof (cases "save_diagnosis ?d now ?st1")
          case none: None
          with ok Some None subdoc have "data_upload kiosk b s t now st = (Inl ServerError, ?st1)"
            by (simp add: data_upload_def Let_def)
          with assms show ?thesis by simp
        next
          case saved: (Some st2)
          with ok Some None subdoc have "snd (data_upload kiosk b s t now st) = st2"
            by (simp add: data_upload_def Let_def)
          with exec_inv_save_diagnosis [OF _ saved d] assms show ?thesis by simp
        qed
      next
        case found: (Some d)
        then have "d \<in> set (diagnoses st)" "ongoing (status d)"
          by (auto dest: ongoing_diagnosis_Some)
        with assms have "commandExecuted (uploaded d e ?l now)
            = (status (uploaded d e ?l now) = medication_dispensed)"
          by (auto simp: exec_inv_def uploaded_def advance_status_eq ongoing_def)
        with ok Some found subdoc assms show ?thesis
          by (auto simp: data_upload_found [where e = e and l = ?l] exec_inv_def)
      qed
    qed
  qed
qed

lemma exec_inv_approve:
  assumes "exec_inv st"
  shows "exec_inv (snd (approve diagnosisId disease doctor now st))"
proof (cases diagnosisId)
  case None
  with assms show ?thesis by (simp add: approve_def)
next
  case (Some i)
  show ?thesis
  proof (cases "own_diagnosis i doctor st")
    case None
    with Some assms show ?thesis by (simp add: approve_not_found)
  next
    case found: (Some d)
    show ?thesis
    proof (cases "disease = []")
      case True
      with Some assms show ?thesis by (simp add: approve_def)
    next
      case False
      from found have "d \<in> set (diagnoses st)" by (auto dest: own_diagnosis_Some)
      with assms have "commandExecuted (approved_doc d disease now)
          = (status (approved_doc d disease now) = medication_dispensed)"
        if "status d \<noteq> medication_dispensed"
        using that by (auto simp: exec_inv_def approved_doc_def)
      with Some assms show ?thesis
        by (auto simp: approve_found [OF False found] exec_inv_def)
    qed
  qed
qed

lemma exec_inv_command_executed:
  assumes "exec_inv st"
  shows "exec_inv (snd (command_executed body now st))"
proof (cases "ce_kioskId body = [] \<or> ce_status body = []")
  case True
  with assms show ?thesis by (simp add: command_executed_bad)
next
  case ok: False
  show ?thesis
  proof (cases "pending_diagnosis (ce_kioskId body) st")
    case None
    with ok assms show ?thesis by (simp add: command_executed_none)
  next
    case (Some d)
    with ok assms show ?thesis
      by (auto simp: command_executed_found exec_inv_def executed_doc_def)
  qed
qed

lemma exec_inv_delete_history:
  assumes "exec_inv st"
  shows "exec_inv (snd (delete_history i doctor st))"
  using assms
  by (auto simp: exec_inv_def delete_history_def split: option.splits dest: set_deleteOne)

lemma reachable_exec_inv: "reachable st \<Longrightarrow> exec_inv st"
proof (induction rule: reachable.induct)
  case init
  show ?case by (simp add: exec_inv_def empty_store_def)
qed (simp_all add: exec_inv_patient_start exec_inv_data_upload exec_inv_approve
    exec_inv_command_executed exec_inv_delete_history)

subsection \<open>Looking a session up by its id\<close>

lemma findById_member:
  assumes "distinct (map d_id ds)" and "d \<in> set ds"
  shows "findById (d_id d) ds = Some d"
  using assms unfolding findById_def findOne_def
  by (induction ds) auto

lemma findById_replaced:
  assumes "x \<in> set ds" and "d_id x = i" and "d_id d' = i"
  shows "findById i (map (\<lambda>y. if d_id y = i then d' else y) ds) = Some d'"
  using assms unfolding findById_def findOne_def
  by (induction ds) auto

lemma findById_other:
  assumes "j \<noteq> i" and "d_id d' = i"
  shows "findById j (map (\<lambda>y. if d_id y = i then d' else y) ds) = findById j ds"
  using assms unfolding findById_def findOne_def
  by (induction ds) auto

lemma findById_appended:
  assumes "\<forall>x \<in> set ds. d_id x \<noteq> i" and "d_id d' = i"
  shows "findById i (ds @ [d']) = Some d'"
  using assms unfolding findById_def findOne_def
  by (induction ds) auto

lemma reachable_scenarios:
  "reachable kiosk_started" "reachable kiosk_predicted" "reachable kiosk_approved"
  "reachable kiosk_restarted" "reachable second_predicted" "reachable second_approved"
  "reachable kiosk_orphaned"
  unfolding kiosk_started_def kiosk_predicted_def kiosk_approved_def kiosk_restarted_def
    second_predicted_def second_approved_def kiosk_orphaned_def
  by (intro reachable.intros)+


subsection \<open>At most one active patient for a kiosk\<close>

lemma patients_data_upload: "patients (snd (data_upload kiosk b s t now st)) = patients st"
proof (cases "kiosk = [] \<or> isNaN b \<or> isNaN s \<or> isNaN t")
  case True
  then show ?thesis by (simp add: data_upload_bad)
next
  case ok: False
  show ?thesis
  proof (cases "active_patient kiosk st")
    case None
    with ok show ?thesis by (simp add: data_upload_unassigned)
  next
    case (Some p)
    let ?l = "predictDisease \<lparr>bpm = b, spo2 = s, temperature = t\<rparr>"
    show ?thesis
    proof (cases "sensor_subdoc b s t now")
      case None
      with ok Some show ?thesis
        by (simp add: data_upload_cast_error split: option.splits)
    next
      case subdoc: (Some e)
      show ?thesis
      proof (cases "ongoing_diagnosis p kiosk st")
        case None
        let ?st1 = "st\<lparr>nextId := Suc (nextId st)\<rparr>"
        let ?d0 = "new_diagnosis (nextId st) (p_id p) (p_doctorId p) kiosk now"
        let ?d = "?d0\<lparr>sensorData := sensorData ?d0 @ [e], predictedDisease := ?l,
             status := advance_status ?l (status ?d0)\<rparr>"
        show ?thesis
        proof (cases "save_diagnosis ?d now ?st1")
          case none: None
          with ok Some None subdoc have "data_upload kiosk b s t now st = (Inl ServerError, ?st1)"
            by (simp add: data_upload_def Let_def)
          then show ?thesis by simp
        next
          case saved: (Some st2)
          with ok Some None subdoc have "snd (data_upload kiosk b s t now st) = st2"
            by (simp add: data_upload_def Let_def)
          with save_diagnosis_fields [OF saved] show ?thesis by simp
        qed
      next
        case found: (Some d)
        with ok Some subdoc show ?thesis
          by (simp add: data_upload_found [where e = e and l = ?l])
      qed
    qed
  qed
qed

lemma patients_command_executed:
  "patients (snd (command_executed body now st)) = patients st"
proof (cases "ce_kioskId body = [] \<or> ce_status body = []")
  case True
  then show ?thesis by (simp add: command_executed_bad)
next
  case ok: False
  show ?thesis
  proof (cases "pending_diagnosis (ce_kioskId body) st")
    case None
    with ok show ?thesis by (simp add: command_executed_none)
  next
    case (Some d)
    with ok show ?thesis by (simp add: command_executed_found)
  qed
qed

lemma patients_delete_history: "patients (snd (delete_history i doctor st)) = patients st"
  by (simp add: delete_history_def split: option.splits)

lemma patients_approve:
  "patients (snd (approve diagnosisId disease doctor now st)) = patients st
   \<or> (\<exists>a. patients (snd (approve diagnosisId disease doctor now st))
         = updateOne (\<lambda>p. p_id p = a) (\<lambda>p. p\<lparr>isActive := False\<rparr>) (patients st))"
proof (cases diagnosisId)
  case None
  then show ?thesis by (simp add: approve_def)
next
  case (Some i)
  show ?thesis
  proof (cases "own_diagnosis i doctor st")
    case None
    with Some show ?thesis by (simp add: approve_not_found)
  next
    case found: (Some d)
    show ?thesis
    proof (cases "disease = []")
      case True
      with Some show ?thesis by (simp add: approve_def)
    next
      case False
      with Some show ?thesis
        by (auto simp: approve_found [OF False found])
    qed
  qed
qed

lemma patients_patient_start:
  "patients (snd (patient_start nm ag phone kiosk doctor now st)) = patients st
   \<or> (\<exists>ps. (ps = [] \<or> ps = [started_patient nm ag phone kiosk doctor now (nextId st)])
        \<and> patients (snd (patient_start nm ag phone kiosk doctor now st))
          = updateMany (\<lambda>p. p_kioskId p = trim kiosk \<and> isActive p) (\<lambda>p. p\<lparr>isActive := False\<rparr>)
              (patients st) @ ps)"
proof (cases "nm = [] \<or> ag = 0 \<or> kiosk = []")
  case True
  then show ?thesis by (simp add: patient_start_bad)
next
  case False
  let ?st1 = "st\<lparr>patients := updateMany (\<lambda>p. p_kioskId p = trim kiosk \<and> isActive p)
      (\<lambda>p. p\<lparr>isActive := False\<rparr>) (patients st)\<rparr>"
  let ?st2 = "?st1\<lparr>diagnoses := updateMany (\<lambda>d. kioskId d = kiosk \<and> ongoing (status d))
      (\<lambda>d. d\<lparr>status := completed\<rparr>) (diagnoses ?st1)\<rparr>"
  let ?np = "\<lparr>p_id = nextId ?st2, name = trim nm, age = ag,
      phoneNumber = map_option trim phone, p_doctorId = doctor,
      p_kioskId = trim kiosk, isActive = True, p_createdAt = now\<rparr>"
  let ?st3 = "?st2\<lparr>nextId := Suc (nextId ?st2)\<rparr>"
  show ?thesis
  proof (cases "patient_valid ?np")
    case invalid: False
    with False have "patient_start nm ag phone kiosk doctor now st = (Inl ServerError, ?st3)"
      by (simp add: patient_start_def Let_def save_patient_def)
    then show ?thesis by simp
  next
    case valid: True
    let ?st4 = "?st3\<lparr>patients := patients ?st3 @ [?np]\<rparr>"
    let ?nd = "new_diagnosis (nextId ?st4) (p_id ?np) doctor kiosk now"
    let ?st5 = "?st4\<lparr>nextId := Suc (nextId ?st4)\<rparr>"
    show ?thesis
    proof (cases "save_diagnosis ?nd now ?st5")
      case None
      with False valid have "patient_start nm ag phone kiosk doctor now st = (Inl ServerError, ?st5)"
        by (simp add: patient_start_def Let_def save_patient_def)
      then show ?thesis by (simp add: started_patient_def)
    next
      case (Some st6)
      with False valid have "snd (patient_start nm ag phone kiosk doctor now st) = st6"
        by (simp add: patient_start_def Let_def save_patient_def)
      with save_diagnosis_fields [OF Some] show ?thesis by (simp add: started_patient_def)
    qed
  qed
qed

lemma one_active_deactivated:
  assumes "one_active st"
    and "patients st' = updateOne P (\<lambda>p. p\<lparr>isActive := False\<rparr>) (patients st)"
  shows "one_active st'"
proof -
  have "x \<in> set (patients st)" if "x \<in> set (patients st')" "isActive x" for x
    using set_updateOne [of x P "\<lambda>p. p\<lparr>isActive := False\<rparr>" "patients st"] that assms(2)
    by auto
  with assms(1) show ?thesis unfolding one_active_def by blast
qed

lemma one_active_started:
  assumes "one_active st"
    and "patients st' = updateMany (\<lambda>p. p_kioskId p = k \<and> isActive p) (\<lambda>p. p\<lparr>isActive := False\<rparr>)
            (patients st) @ ps"
    and "ps = [] \<or> ps = [np]" and "p_kioskId np = k"
  shows "one_active st'"
proof -
  have old: "x \<in> set (patients st) \<and> p_kioskId x \<noteq> k"
    if "x \<in> set (updateMany (\<lambda>p. p_kioskId p = k \<and> isActive p) (\<lambda>p. p\<lparr>isActive := False\<rparr>)
            (patients st))" "isActive x" for x
    using that by (auto simp: updateMany_def)
  have cases: "x \<in> set (patients st) \<and> p_kioskId x \<noteq> k \<or> x = np"
    if "x \<in> set (patients st')" "isActive x" for x
    using that old [of x] assms(2,3) by auto
  show ?thesis
    unfolding one_active_def
  proof (intro ballI impI)
    fix p q
    assume p: "p \<in> set (patients st')" and q: "q \<in> set (patients st')"
      and a: "isActive p \<and> isActive q \<and> p_kioskId p = p_kioskId q"
    from a have ap: "isActive p" and aq: "isActive q" and e: "p_kioskId p = p_kioskId q"
      by simp_all
    from cases [OF p ap] show "p_id p = p_id q"
    proof
      assume "p = np"
      from cases [OF q aq] show ?thesis
      proof
        assume "q \<in> set (patients st) \<and> p_kioskId q \<noteq> k"
        with e \<open>p = np\<close> assms(4) show ?thesis by simp
      next
        assume "q = np"
        with \<open>p = np\<close> show ?thesis by simp
      qed
    next
      assume old_p: "p \<in> set (patients st) \<and> p_kioskId p \<noteq> k"
      from cases [OF q aq] show ?thesis
      proof
        assume "q \<in> set (patients st) \<and> p_kioskId q \<noteq> k"
        with old_p ap aq e assms(1) show ?thesis unfolding one_active_def by blast
      next
        assume "q = np"
        with e old_p assms(4) show ?thesis by simp
      qed
    qed
  qed
qed

lemma one_active_same:
  "patients st' = patients st \<Longrightarrow> one_active st' = one_active st"
  by (simp add: one_active_def)

lemma reachable_one_active: "reachable st \<Longrightarrow> one_active st"
proof (induction rule: reachable.induct)
  case init
  show ?case by (simp add: one_active_def empty_store_def)
next
  case (start st nm ag phone kiosk doctor now)
  let ?np = "started_patient nm ag phone kiosk doctor now (nextId st)"
  have k: "p_kioskId ?np = trim kiosk" by (simp add: started_patient_def)
  from patients_patient_start [of nm ag phone kiosk doctor now st] show ?case
  proof (elim disjE exE conjE)
    assume "patients (snd (patient_start nm ag phone kiosk doctor now st)) = patients st"
    from one_active_same [OF this] start.IH show ?thesis by simp
  next
    fix ps
    assume "ps = []"
      and "patients (snd (patient_start nm ag phone kiosk doctor now st))
          = updateMany (\<lambda>p. p_kioskId p = trim kiosk \<and> isActive p) (\<lambda>p. p\<lparr>isActive := False\<rparr>)
              (patients st) @ ps"
    from one_active_started [OF start.IH this(2) disjI1 [OF this(1)] k] show ?thesis .
  next
    fix ps
    assume "ps = [?np]"
      and "patients (snd (patient_start nm ag phone kiosk doctor now st))
          = updateMany (\<lambda>p. p_kioskId p = trim kiosk \<and> isActive p) (\<lambda>p. p\<lparr>isActive := False\<rparr>)
              (patients st) @ ps"
    from one_active_started [OF start.IH this(2) disjI2 [OF this(1)] k] show ?thesis .
  qed
next
  case (upload st kiosk b s t now)
  then show ?case by (simp add: one_active_same [OF patients_data_upload])
next
  case (review st diagnosisId disease doctor now)
  from patients_approve [of diagnosisId disease doctor now st] show ?case
  proof (elim disjE exE)
    assume "patients (snd (approve diagnosisId disease doctor now st)) = patients st"
    from one_active_same [OF this] review.IH show ?thesis by simp
  next
    fix a
    assume "patients (snd (approve diagnosisId disease doctor now st))
         = updateOne (\<lambda>p. p_id p = a) (\<lambda>p. p\<lparr>isActive := False\<rparr>) (patients st)"
    then show ?thesis by (rule one_active_deactivated [OF review.IH])
  qed
next
  case (executed st body now)
  then show ?case by (simp add: one_active_same [OF patients_command_executed])
next
  case (deleted st i doctor)
  then show ?case by (simp add: one_active_same [OF patients_delete_history])
qed

lemma filter_at_most_one:
  assumes "distinct (map f xs)"
    and "\<forall>x \<in> set xs. \<forall>y \<in> set xs. P x \<and> P y \<longrightarrow> f x = f y"
  shows "length (filter P xs) \<le> 1"
  using assms
proof (induction xs)
  case Nil
  then show ?case by simp
next
  case (Cons x xs)
  show ?case
  proof (cases "P x")
    case True
    have "filter P xs = []"
    proof (rule ccontr)
      assume "filter P xs \<noteq> []"
      then have "\<exists>y \<in> set xs. P y"
        by (simp add: filter_empty_conv)
      then obtain y where y: "y \<in> set xs" "P y"
        by blast
      with True Cons.prems(2) have "f x = f y" by (meson list.set_intros)
      with y(1) Cons.prems(1) show False by force
    qed
    with True show ?thesis by simp
  next
    case False
    from Cons.prems have "distinct (map f xs)"
      and "\<forall>x \<in> set xs. \<forall>y \<in> set xs. P x \<and> P y \<longrightarrow> f x = f y"
      by (simp, meson list.set_intros)
    from Cons.IH [OF this] False show ?thesis by simp
  qed
qed

lemma one_active_length:
  assumes "reachable st"
  shows "length (filter (\<lambda>p. p_kioskId p = k \<and> isActive p) (patients st)) \<le> 1"
proof (rule filter_at_most_one [where f = p_id])
  from reachable_store_ok [OF assms] show "distinct (map p_id (patients st))"
    by (simp add: store_ok_def)
  show "\<forall>x \<in> set (patients st). \<forall>y \<in> set (patients st).
      (p_kioskId x = k \<and> isActive x) \<and> (p_kioskId y = k \<and> isActive y) \<longrightarrow> p_id x = p_id y"
  proof (intro ballI impI)
    fix x y
    assume x: "x \<in> set (patients st)" and y: "y \<in> set (patients st)"
      and "(p_kioskId x = k \<and> isActive x) \<and> (p_kioskId y = k \<and> isActive y)"
    then have "isActive x \<and> isActive y \<and> p_kioskId x = p_kioskId y" by simp
    with x y reachable_one_active [OF assms] show "p_id x = p_id y"
      unfolding one_active_def by blast
  qed
qed


subsection \<open>The classifier\<close>

lemma js_Number [simp]:
  "\<not> isNaN (Number x)"
  "js_ge (Number x) c = (c \<le> x)"
  "js_le (Number x) c = (x \<le> c)"
  "js_lt (Number x) c = (x < c)"
  "js_gt (Number x) c = (c < x)"
  by (simp_all add: isNaN_def js_ge_def js_le_def js_lt_def js_gt_def)


lemma js_ge_fever: "js_ge t (189 / 5) \<Longrightarrow> js_ge t 25"
  by (auto simp: js_ge_def split: option.splits)

lemma predictDisease_never_A: "predictDisease r \<noteq> ''Disease A''"
  using js_ge_fever [of "temperature r"] by (auto simp: predictDisease_def)

lemma predictDisease_warm:
  "js_ge t 25 \<Longrightarrow> predictDisease \<lparr>bpm = b, spo2 = s, temperature = t\<rparr> = ''health is good''"
  by (simp add: predictDisease_def)

lemma predictDisease_cool:
  assumes "\<not> isNaN b" "\<not> isNaN s" "\<not> isNaN t" and "\<not> js_ge t 25"
  shows "predictDisease \<lparr>bpm = b, spo2 = s, temperature = t\<rparr> =
     (if b = Number 0 \<or> s = Number 0 \<or> t = Number 0 then ''Undetermined''
      else if js_ge s 96 \<and> js_lt b 70 then ''Disease B'' else ''Undetermined'')"
proof -
  from assms(3,4) have "js_le t 36" and "\<not> js_ge t (189 / 5)"
    by (auto simp: isNaN_def js_ge_def js_le_def split: option.splits)
  with assms show ?thesis by (simp add: predictDisease_def)
qed

lemma predictDisease_cool_enum:
  assumes "\<not> isNaN b" "\<not> isNaN s" "\<not> isNaN t" and "\<not> js_ge t 25"
  shows "predictDisease \<lparr>bpm = b, spo2 = s, temperature = t\<rparr> \<in> set disease_enum"
  by (simp add: predictDisease_cool [OF assms] disease_enum_def)

lemma health_is_good_refused: "''health is good'' \<notin> set disease_enum"
  by (simp add: disease_enum_def)

lemma sensor_subdoc_Number [simp]:
  "sensor_subdoc (Number x) (Number y) (Number z) now
     = Some \<lparr>bpm = Some x, spo2 = Some y, temperature = Some z, timestamp = now\<rparr>"
  by (simp add: sensor_subdoc_def)

subsection \<open>An upload to a located session\<close>

lemma data_upload_located:
  assumes "reachable st" and "kiosk \<noteq> []" and "\<not> isNaN b" "\<not> isNaN s" "\<not> isNaN t"
    and "active_patient kiosk st = Some p"
    and "ongoing_diagnosis p kiosk st = Some d"
    and "predictDisease \<lparr>bpm = b, spo2 = s, temperature = t\<rparr> = l"
  shows "findById (d_id d) (diagnoses st) = Some d"
    and "l \<notin> set disease_enum \<or> sensor_subdoc b s t now = None
           \<Longrightarrow> data_upload kiosk b s t now st = (Inl ServerError, st)"
    and "l \<in> set disease_enum \<Longrightarrow> sensor_subdoc b s t now = Some e
           \<Longrightarrow> fst (data_upload kiosk b s t now st) = Inr l
             \<and> map_option status (findById (d_id d) (diagnoses (snd (data_upload kiosk b s t now st))))
                 = Some (advance_status l (status d))"
proof -
  from assms(7) have d: "d \<in> set (diagnoses st)" "kioskId d = kiosk"
    by (auto dest: ongoing_diagnosis_Some)
  from reachable_store_ok [OF assms(1)]
  have ok: "distinct (map d_id (diagnoses st))" "diagnosis_valid d"
    using d(1) by (simp_all add: store_ok_def)
  show "findById (d_id d) (diagnoses st) = Some d"
    by (rule findById_member [OF ok(1) d(1)])
  from ok(2) have "kioskId d \<noteq> []" "approvedDisease d \<in> set disease_enum"
    by (simp_all add: diagnosis_valid_def)
  then have valid: "diagnosis_valid (uploaded d e' l now) = (l \<in> set disease_enum)" for e'
    by (simp add: diagnosis_valid_uploaded)
  show "data_upload kiosk b s t now st = (Inl ServerError, st)"
    if "l \<notin> set disease_enum \<or> sensor_subdoc b s t now = None"
  proof (cases "sensor_subdoc b s t now")
    case None
    with assms(2-7) show ?thesis by (simp add: data_upload_cast_error)
  next
    case (Some e')
    with that have "l \<notin> set disease_enum" by simp
    with data_upload_found [OF assms(2-7) Some assms(8)] show ?thesis
      by (simp add: valid)
  qed
  show "fst (data_upload kiosk b s t now st) = Inr l
      \<and> map_option status (findById (d_id d) (diagnoses (snd (data_upload kiosk b s t now st))))
          = Some (advance_status l (status d))"
    if l: "l \<in> set disease_enum" and e: "sensor_subdoc b s t now = Some e"
  proof -
    have id: "d_id (uploaded d e l now) = d_id d" by (simp add: uploaded_def)
    have st: "status (uploaded d e l now) = advance_status l (status d)"
      by (simp add: uploaded_def)
    from data_upload_found [OF assms(2-7) e assms(8)] l
    show ?thesis
      by (simp add: valid findById_replaced [OF d(1) refl id] st)
  qed
qed

lemma enum_nonempty: "disease \<in> set disease_enum \<Longrightarrow> disease \<noteq> []"
  by (auto simp: disease_enum_def)

lemma approve_succeeds:
  assumes "reachable st" and "disease \<in> set disease_enum"
    and "own_diagnosis i doctor st = Some d"
    and "status d \<noteq> approved" and "status d \<noteq> medication_dispensed"
  shows "approve (Some i) disease doctor now st =
     (Inr (i, command_for disease),
      st\<lparr>diagnoses := map (\<lambda>y. if d_id y = i then approved_doc d disease now else y) (diagnoses st),
         patients := updateOne (\<lambda>p. p_id p = patientId d) (\<lambda>p. p\<lparr>isActive := False\<rparr>)
            (patients st)\<rparr>)"
proof -
  from assms(3) have "d \<in> set (diagnoses st)" by (simp add: own_diagnosis_Some)
  with reachable_store_ok [OF assms(1)] have "diagnosis_valid d" by (simp add: store_ok_def)
  with assms(2) have "diagnosis_valid (approved_doc d disease now)"
    by (simp add: diagnosis_valid_def approved_doc_def)
  with assms(4,5) show ?thesis
    by (simp add: approve_found [OF enum_nonempty [OF assms(2)] assms(3)])
qed

lemma command_executed_Inr:
  assumes "command_executed body now st = (Inr i, st')"
  obtains d where "ce_kioskId body \<noteq> []" and "ce_status body \<noteq> []"
    and "pending_diagnosis (ce_kioskId body) st = Some d" and "d_id d = i"
    and "diagnosis_valid d"
    and "st' = st\<lparr>diagnoses := map (\<lambda>y. if d_id y = i then executed_doc d now else y) (diagnoses st)\<rparr>"
proof (cases "ce_kioskId body = [] \<or> ce_status body = []")
  case True
  with assms show ?thesis by (simp add: command_executed_bad)
next
  case ok: False
  show ?thesis
  proof (cases "pending_diagnosis (ce_kioskId body) st")
    case None
    with ok assms show ?thesis by (simp add: command_executed_none)
  next
    case (Some d)
    with ok assms that [of d] show ?thesis
      by (auto simp: command_executed_found split: if_splits)
  qed
qed

lemma get_motor_command_pending:
  assumes "kiosk \<noteq> []"
  shows "get_motor_command kiosk st = Inr none \<longleftrightarrow> pending_diagnosis kiosk st = None"
proof (cases "pending_diagnosis kiosk st")
  case None
  with assms show ?thesis by (simp add: get_motor_command_def)
next
  case (Some d)
  then have "motorCommand d \<noteq> none"
    by (auto dest: pending_diagnosis_Some simp: pending_command_def)
  with Some assms show ?thesis by (simp add: get_motor_command_def)
qed

lemma command_executed_ignores_id:
  "command_executed (body\<lparr>ce_diagnosisId := other\<rparr>) now st = command_executed body now st"
  by (simp add: command_executed_def)

lemma filter_deactivated:
  "filter (\<lambda>p. p_kioskId p = k \<and> isActive p)
     (updateMany (\<lambda>p. p_kioskId p = k \<and> isActive p) (\<lambda>p. p\<lparr>isActive := False\<rparr>) ps) = []"
  by (induction ps) (simp_all add: updateMany_def)

lemma filter_completed:
  "filter (\<lambda>d. kioskId d = k \<and> ongoing (status d))
     (updateMany (\<lambda>d. kioskId d = k \<and> ongoing (status d)) (\<lambda>d. d\<lparr>status := completed\<rparr>) ds) = []"
proof -
  have "\<not> ongoing completed" by (simp add: ongoing_def)
  then show ?thesis
    by (induction ds) (simp_all add: updateMany_def)
qed

lemma updateMany_mem:
  "d \<in> set ds \<Longrightarrow> (if P d then f d else d) \<in> set (updateMany P f ds)"
  by (induction ds) (auto simp: updateMany_def)

section \<open>The claims\<close>

subsection \<open>C1\<close>

text \<open>
  C1, as the code has it. When \<open>patient_start\<close> succeeds, exactly one active patient
  is stored for the kiosk id (as the Patient schema trims it), and exactly one Diagnosis
  of the kiosk is in \<open>collecting_data\<close>, \<open>prediction_made\<close> or
  \<open>pending_approval\<close>: the new one, in \<open>collecting_data\<close>. Every earlier Diagnosis
  of the kiosk in one of these three statuses is now \<open>completed\<close>; every other
  Diagnosis, an \<open>approved\<close> or \<open>declined\<close> one of the same kiosk included, is stored
  as it was. In every reachable store, before and after the call, no kiosk id has more
  than one active patient.
\<close>

theorem C1_start_cleanup:
  assumes "reachable st"
    and "patient_start nm ag phone kiosk doctor now st = (Inr r, st')"
  shows "length (active_subjects (trim kiosk) st') = 1
    \<and> map status (sessions_with ongoing kiosk st') = [collecting_data]
    \<and> map d_id (sessions_with ongoing kiosk st') = [fst (snd r)]
    \<and> (\<forall>d \<in> set (diagnoses st).
          if kioskId d = kiosk \<and> ongoing (status d)
          then d\<lparr>status := completed\<rparr> \<in> set (diagnoses st')
          else d \<in> set (diagnoses st'))
    \<and> (\<forall>k. length (active_subjects k st) \<le> 1 \<and> length (active_subjects k st') \<le> 1)"
proof -
  from assms(2) have r: "fst (patient_start nm ag phone kiosk doctor now st) = Inr r"
    and st': "st' = snd (patient_start nm ag phone kiosk doctor now st)"
    by simp_all
  from reachable_store_ok [OF assms(1)]
  have fresh: "\<forall>d \<in> set (diagnoses st). d_id d \<noteq> Suc (nextId st)"
    by (auto simp: store_ok_def)
  note ok = patient_start_ok [OF patient_start_Inr [OF r] fresh]
  have 1: "length (active_subjects (trim kiosk) st') = 1"
    unfolding st' active_subjects_def ok(2)
    by (simp add: filter_deactivated started_patient_def)
  have 2: "sessions_with ongoing kiosk st' = [new_diagnosis (Suc (nextId st)) (nextId st) doctor kiosk now]"
  proof -
    have "ongoing (status (new_diagnosis (Suc (nextId st)) (nextId st) doctor kiosk now))"
      and "kioskId (new_diagnosis (Suc (nextId st)) (nextId st) doctor kiosk now) = kiosk"
      by (simp_all add: new_diagnosis_def ongoing_def)
    then show ?thesis
      unfolding st' sessions_with_def ok(3) by (simp add: filter_completed)
  qed
  have 3: "fst (snd r) = Suc (nextId st)"
    using r ok(1) by auto
  have 4: "\<forall>d \<in> set (diagnoses st).
          if kioskId d = kiosk \<and> ongoing (status d)
          then d\<lparr>status := completed\<rparr> \<in> set (diagnoses st')
          else d \<in> set (diagnoses st')"
  proof
    fix d assume d: "d \<in> set (diagnoses st)"
    let ?P = "\<lambda>d. kioskId d = kiosk \<and> ongoing (status d)"
    let ?f = "\<lambda>d. d\<lparr>status := completed\<rparr>"
    have sub: "set (updateMany ?P ?f (diagnoses st)) \<subseteq> set (diagnoses st')"
      unfolding st' ok(3) by auto
    show "if kioskId d = kiosk \<and> ongoing (status d)
          then d\<lparr>status := completed\<rparr> \<in> set (diagnoses st')
          else d \<in> set (diagnoses st')"
    proof (cases "?P d")
      case True
      with updateMany_mem [OF d, of ?P ?f] have "?f d \<in> set (updateMany ?P ?f (diagnoses st))"
        by simp
      with sub True show ?thesis by auto
    next
      case False
      with updateMany_mem [OF d, of ?P ?f] have "d \<in> set (updateMany ?P ?f (diagnoses st))"
        by simp
      with sub False show ?thesis by auto
    qed
  qed
  have two_a: "map status (sessions_with ongoing kiosk st') = [collecting_data]"
    by (simp add: 2 new_diagnosis_def)
  have two_b: "map d_id (sessions_with ongoing kiosk st') = [fst (snd r)]"
    by (simp add: 2 3 new_diagnosis_def)
  have "reachable st'"
    unfolding st' by (rule reachable.start [OF assms(1)])
  from one_active_length [OF assms(1)] one_active_length [OF this]
  have 5: "\<forall>k. length (active_subjects k st) \<le> 1 \<and> length (active_subjects k st') \<le> 1"
    unfolding active_subjects_def by blast
  show ?thesis
    by (intro conjI 1 two_a two_b 4 5)
qed

theorem C1_witness:
  "reachable kiosk_predicted
   \<and> patient_start ''Ravi'' 41 None ''K1'' 7 13 kiosk_predicted = (Inr (2, 3, ''K1''), pending_restarted)
   \<and> map status (diagnoses kiosk_predicted) = [pending_approval]
   \<and> length (active_subjects (trim ''K1'') pending_restarted) = 1
   \<and> map status (sessions_with ongoing ''K1'' pending_restarted) = [collecting_data]
   \<and> map status (diagnoses pending_restarted) = [completed, collecting_data]"
proof -
  have r: "patient_start ''Ravi'' 41 None ''K1'' 7 13 kiosk_predicted
      = (Inr (2, 3, ''K1''), pending_restarted)"
    by code_simp
  have b: "map status (diagnoses kiosk_predicted) = [pending_approval]"
    by code_simp
  have a: "map status (diagnoses pending_restarted) = [completed, collecting_data]"
    by code_simp
  note t = C1_start_cleanup [OF reachable_scenarios(2) r]
  note t1 = t [THEN conjunct1]
  note t2 = t [THEN conjunct2, THEN conjunct1]
  show ?thesis
    by (intro conjI reachable_scenarios(2) r b a t1 t2)
qed

text \<open>
  C1 as stated fails. Kiosk \<open>K1\<close> has an approved session whose command is not yet
  executed; a new session is started on \<open>K1\<close>. The approved session is not moved to
  \<open>completed\<close>, and two sessions of the kiosk are in a non-terminal status.
\<close>

theorem C1_counterexample:
  "map status (sessions_with non_terminal ''K1'' kiosk_approved) = [approved]
   \<and> fst (patient_start ''Ravi'' 41 None ''K1'' 7 13 kiosk_approved) = Inr (2, 3, ''K1'')
   \<and> map status (sessions_with non_terminal ''K1''
         (snd (patient_start ''Ravi'' 41 None ''K1'' 7 13 kiosk_approved)))
       = [approved, collecting_data]
   \<and> length (sessions_with non_terminal ''K1''
         (snd (patient_start ''Ravi'' 41 None ''K1'' 7 13 kiosk_approved))) \<noteq> 1"
  by code_simp

subsection \<open>C2\<close>

text \<open>
  C2, as the code has it. \<open>command_executed\<close> reads no session id: whatever id the
  kiosk sends along, the outcome is the same. The session it marks is the one its own
  query finds when the confirmation arrives: the latest Diagnosis of the kiosk that is
  approved, has a command and is not executed, which is the session whose command
  \<open>get_motor_command\<close> returns on the same store. That session becomes
  \<open>medication_dispensed\<close> with \<open>commandExecuted\<close> set, and no other session changes.
\<close>

theorem C2_confirmation_marks_latest_pending:
  assumes "command_executed body now st = (Inr i, st')"
  shows "command_executed (body\<lparr>ce_diagnosisId := other\<rparr>) now st = (Inr i, st')
    \<and> (\<exists>d. pending_diagnosis (ce_kioskId body) st = Some d \<and> d_id d = i
          \<and> get_motor_command (ce_kioskId body) st = Inr (motorCommand d)
          \<and> (\<forall>e \<in> set (diagnoses st).
                pending_command (ce_kioskId body) e \<longrightarrow> createdAt e \<le> createdAt d))
    \<and> map_option status (findById i (diagnoses st')) = Some medication_dispensed
    \<and> map_option commandExecuted (findById i (diagnoses st')) = Some True
    \<and> (\<forall>j. j \<noteq> i \<longrightarrow> findById j (diagnoses st') = findById j (diagnoses st))"
proof -
  from assms obtain d where k: "ce_kioskId body \<noteq> []"
    and d: "pending_diagnosis (ce_kioskId body) st = Some d" "d_id d = i"
    and st': "st' = st\<lparr>diagnoses := map (\<lambda>y. if d_id y = i then executed_doc d now else y)
        (diagnoses st)\<rparr>"
    by (rule command_executed_Inr)
  have id: "d_id (executed_doc d now) = i" using d by (simp add: executed_doc_def)
  from d have mem: "d \<in> set (diagnoses st)" by (simp add: pending_diagnosis_Some)
  have 1: "command_executed (body\<lparr>ce_diagnosisId := other\<rparr>) now st = (Inr i, st')"
    using assms by (simp add: command_executed_ignores_id)
  have 2: "get_motor_command (ce_kioskId body) st = Inr (motorCommand d)"
    using k d by (simp add: get_motor_command_def)
  have 3: "\<forall>e \<in> set (diagnoses st).
      pending_command (ce_kioskId body) e \<longrightarrow> createdAt e \<le> createdAt d"
    using pending_diagnosis_Some [OF d(1)] by simp
  have 4: "findById i (diagnoses st') = Some (executed_doc d now)"
    unfolding st' using findById_replaced [OF mem d(2) id] by simp
  have 5: "\<forall>j. j \<noteq> i \<longrightarrow> findById j (diagnoses st') = findById j (diagnoses st)"
    unfolding st' using findById_other [OF _ id] by simp
  show ?thesis
    using 1 2 3 5 d by (simp add: 4 executed_doc_def)
qed

theorem C2_witness:
  "command_executed ack 16 kiosk_approved = (Inr 1, kiosk_dispensed)
   \<and> command_executed (ack\<lparr>ce_diagnosisId := None\<rparr>) 16 kiosk_approved = (Inr 1, kiosk_dispensed)
   \<and> get_motor_command ''K1'' kiosk_approved = Inr activate_motor_2
   \<and> map_option status (findById 1 (diagnoses kiosk_dispensed)) = Some medication_dispensed
   \<and> map_option commandExecuted (findById 1 (diagnoses kiosk_dispensed)) = Some True"
proof -
  have r: "command_executed ack 16 kiosk_approved = (Inr 1, kiosk_dispensed)"
    by code_simp
  have g: "get_motor_command ''K1'' kiosk_approved = Inr activate_motor_2"
    by code_simp
  note t = C2_confirmation_marks_latest_pending [OF r, of None]
  note t1 = t [THEN conjunct1]
  note t3 = t [THEN conjunct2, THEN conjunct2, THEN conjunct1]
  note t4 = t [THEN conjunct2, THEN conjunct2, THEN conjunct2, THEN conjunct1]
  show ?thesis
    by (intro conjI r g t1 t3 t4)
qed

text \<open>
  C2 as stated fails. Session 1 of kiosk \<open>K1\<close> is approved with
  \<open>activate_motor_2\<close>, and the kiosk's poll returns that command. Before the kiosk
  confirms, a second session on \<open>K1\<close> (session 3) is started and approved with
  \<open>activate_motor_1\<close>. The confirmation carries the id 1, and the handler marks
  session 3: session 1 stays approved and unexecuted.
\<close>

theorem C2_counterexample:
  "get_motor_command ''K1'' kiosk_approved = Inr activate_motor_2
   \<and> map_option motorCommand (findById 1 (diagnoses kiosk_approved)) = Some activate_motor_2
   \<and> ce_diagnosisId ack = Some 1
   \<and> fst (command_executed ack 16 second_approved) = Inr 3
   \<and> map_option status (findById 3 (diagnoses (snd (command_executed ack 16 second_approved))))
       = Some medication_dispensed
   \<and> map_option status (findById 1 (diagnoses (snd (command_executed ack 16 second_approved))))
       = Some approved
   \<and> map_option commandExecuted (findById 1 (diagnoses (snd (command_executed ack 16 second_approved))))
       = Some False"
  by code_simp

subsection \<open>C3\<close>

text \<open>
  C3, as the code has it. After a confirmation that marked session \<open>i\<close>, a second
  confirmation for the same kiosk never answers \<open>i\<close> again and never changes session
  \<open>i\<close>. When no other approved session with an unexecuted command is left for the
  kiosk, which is when \<open>get_motor_command\<close> returns \<open>none\<close>, the second
  confirmation is answered with 404 and leaves the store as it is.
\<close>

theorem C3_second_confirmation:
  assumes "command_executed body now st = (Inr i, st')"
  shows "fst (command_executed body now' st') \<noteq> Inr i
    \<and> findById i (diagnoses (snd (command_executed body now' st'))) = findById i (diagnoses st')
    \<and> (get_motor_command (ce_kioskId body) st' = Inr none
        \<longrightarrow> command_executed body now' st' = (Inl NotFound, st'))"
proof -
  from assms obtain d where k: "ce_kioskId body \<noteq> []" "ce_status body \<noteq> []"
    and d: "pending_diagnosis (ce_kioskId body) st = Some d" "d_id d = i"
    and st': "st' = st\<lparr>diagnoses := map (\<lambda>y. if d_id y = i then executed_doc d now else y)
        (diagnoses st)\<rparr>"
    by (rule command_executed_Inr)
  have dispensed: "status y = medication_dispensed" if "y \<in> set (diagnoses st')" "d_id y = i" for y
    using that unfolding st' by (auto simp: executed_doc_def)
  show ?thesis
  proof (cases "pending_diagnosis (ce_kioskId body) st'")
    case None
    with k show ?thesis by (simp add: command_executed_none)
  next
    case (Some e)
    then have e: "e \<in> set (diagnoses st')" "status e = approved"
      by (auto dest: pending_diagnosis_Some simp: pending_command_def)
    with dispensed [of e] have ne: "d_id e \<noteq> i" by auto
    have id: "d_id (executed_doc e now') = d_id e" by (simp add: executed_doc_def)
    from Some k have "get_motor_command (ce_kioskId body) st' \<noteq> Inr none"
      by (simp add: get_motor_command_pending)
    with Some k ne show ?thesis
      by (simp add: command_executed_found findById_other [OF _ id])
  qed
qed

theorem C3_witness:
  "command_executed ack 16 kiosk_approved = (Inr 1, kiosk_dispensed)
   \<and> get_motor_command (ce_kioskId ack) kiosk_dispensed = Inr none
   \<and> command_executed ack 17 kiosk_dispensed = (Inl NotFound, kiosk_dispensed)
   \<and> fst (command_executed ack 17 kiosk_dispensed) \<noteq> Inr 1"
proof -
  have r: "command_executed ack 16 kiosk_approved = (Inr 1, kiosk_dispensed)"
    by code_simp
  have g: "get_motor_command (ce_kioskId ack) kiosk_dispensed = Inr none"
    by code_simp
  note t = C3_second_confirmation [OF r, of 17]
  note t1 = t [THEN conjunct1]
  note t3 = t [THEN conjunct2, THEN conjunct2, THEN mp, OF g]
  show ?thesis
    by (intro conjI r g t1 t3)
qed

text \<open>
  C3 as stated fails: the second confirmation of the same command does not return the
  session id again. It is answered with the error 404.
\<close>

theorem C3_counterexample:
  "fst (command_executed ack 16 kiosk_approved) = Inr 1
   \<and> map_option status (findById 1 (diagnoses (snd (command_executed ack 16 kiosk_approved))))
       = Some medication_dispensed
   \<and> fst (command_executed ack 17 (snd (command_executed ack 16 kiosk_approved))) = Inl NotFound
   \<and> fst (command_executed ack 17 (snd (command_executed ack 16 kiosk_approved))) \<noteq> Inr 1"
  by code_simp

subsection \<open>C4\<close>

text \<open>
  C4. The reading \<open>{bpm: 100, spo2: 92, temperature: 38.0}\<close> on a session that is
  collecting data: the classifier answers \<open>health is good\<close>, which is not a value of
  the \<open>enum\<close> of \<open>predictedDisease\<close>, so \<open>save\<close> is refused, the handler answers
  500 and the session stays as it was.
\<close>

theorem C4_fever_reading:
  "predictDisease \<lparr>bpm = Number 100, spo2 = Number 92, temperature = Number 38\<rparr> = ''health is good''
   \<and> data_upload ''K1'' (Number 100) (Number 92) (Number 38) 11 kiosk_started
       = (Inl ServerError, kiosk_started)
   \<and> map_option status (findById 1 (diagnoses kiosk_started)) = Some collecting_data"
  by code_simp

subsection \<open>C5\<close>




subsection \<open>C6\<close>

text \<open>
  C6, as the code has it. \<open>approve\<close> answers 404 when no Diagnosis has this id and
  this doctor, and 400 exactly when the Diagnosis found is \<open>approved\<close> or
  \<open>medication_dispensed\<close>; both leave the store as it is. In every other status,
  \<open>collecting_data\<close>, \<open>prediction_made\<close>, \<open>pending_approval\<close>, \<open>declined\<close> and
  \<open>completed\<close>, a label of the \<open>enum\<close> is accepted: the Diagnosis becomes
  \<open>approved\<close>, and no Diagnosis with another id changes.
\<close>

theorem C6_review_guard:
  assumes "reachable st" and "disease \<in> set disease_enum"
  shows "case own_diagnosis i doctor st of
      None \<Rightarrow> approve (Some i) disease doctor now st = (Inl NotFound, st)
    | Some d \<Rightarrow>
        if status d = approved \<or> status d = medication_dispensed
        then approve (Some i) disease doctor now st = (Inl BadRequest, st)
        else fst (approve (Some i) disease doctor now st) = Inr (i, command_for disease)
          \<and> map_option status (findById i (diagnoses (snd (approve (Some i) disease doctor now st))))
              = Some approved
          \<and> (\<forall>j. j \<noteq> i \<longrightarrow>
                findById j (diagnoses (snd (approve (Some i) disease doctor now st)))
                  = findById j (diagnoses st))"
proof (cases "own_diagnosis i doctor st")
  case None
  with enum_nonempty [OF assms(2)] show ?thesis by (simp add: approve_not_found)
next
  case (Some d)
  then have d: "d \<in> set (diagnoses st)" "d_id d = i" by (simp_all add: own_diagnosis_Some)
  have id: "d_id (approved_doc d disease now) = i" using d by (simp add: approved_doc_def)
  show ?thesis
  proof (cases "status d = approved \<or> status d = medication_dispensed")
    case True
    with Some enum_nonempty [OF assms(2)] show ?thesis by (simp add: approve_found)
  next
    case False
    with Some approve_succeeds [OF assms Some, of now] show ?thesis
      by (simp add: findById_replaced [OF d id] findById_other [OF _ id] approved_doc_def)
  qed
qed

theorem C6_witness:
  "reachable kiosk_started \<and> ''Disease A'' \<in> set disease_enum
   \<and> map_option status (own_diagnosis 1 7 kiosk_started) = Some collecting_data
   \<and> fst (approve (Some 1) ''Disease A'' 7 11 kiosk_started) = Inr (1, activate_motor_1)
   \<and> map_option status (findById 1 (diagnoses (snd (approve (Some 1) ''Disease A'' 7 11 kiosk_started))))
       = Some approved"
proof -
  have d: "own_diagnosis 1 7 kiosk_started = Some (hd (diagnoses kiosk_started))"
    and c: "status (hd (diagnoses kiosk_started)) = collecting_data"
    by code_simp+
  have e: "''Disease A'' \<in> set disease_enum" by (simp add: disease_enum_def)
  from C6_review_guard [OF reachable_scenarios(1) e, of 1 7 11]
  show ?thesis
    using d c e reachable_scenarios(1) by (simp add: command_for_def)
qed

text \<open>
  C6 as stated fails: a session that is still \<open>collecting_data\<close> is reviewable. The
  decision is accepted and the session becomes \<open>approved\<close>.
\<close>

theorem C6_counterexample:
  "map status (diagnoses kiosk_started) = [collecting_data]
   \<and> fst (approve (Some 1) ''Disease A'' 7 11 kiosk_started) = Inr (1, activate_motor_1)
   \<and> map status (diagnoses (snd (approve (Some 1) ''Disease A'' 7 11 kiosk_started))) = [approved]"
  by code_simp

subsection \<open>C7\<close>

text \<open>
  C7. A session in status \<open>collecting_data\<close> that \<open>data_upload\<close> locates for the
  kiosk, and a reading that passes the guard and gets a label other than
  \<open>Undetermined\<close>, which is the handler's test for a determined label. When the
  temperature reads 25 or more, the label is \<open>health is good\<close>: \<open>save\<close> is refused,
  the handler answers 500, the store is as before and the session is still in
  \<open>collecting_data\<close>. When the temperature reads below 25, where the label is
  \<open>Disease B\<close>, and the three fields can be cast, this one call answers the label
  and stores the session as \<open>pending_approval\<close>.
\<close>

theorem C7_determined_label_only_below_25:
  assumes "reachable st" and "kiosk \<noteq> []" and "\<not> isNaN b" "\<not> isNaN s" "\<not> isNaN t"
    and "active_patient kiosk st = Some p"
    and "ongoing_diagnosis p kiosk st = Some d"
    and "status d = collecting_data"
    and "predictDisease \<lparr>bpm = b, spo2 = s, temperature = t\<rparr> = l"
    and "l \<noteq> ''Undetermined''"
  shows "(js_ge t 25 \<longrightarrow>
            l = ''health is good''
          \<and> data_upload kiosk b s t now st = (Inl ServerError, st)
          \<and> map_option status (findById (d_id d) (diagnoses (snd (data_upload kiosk b s t now st))))
              = Some collecting_data)
    \<and> (\<not> js_ge t 25 \<and> sensor_subdoc b s t now \<noteq> None \<longrightarrow>
            l = ''Disease B''
          \<and> fst (data_upload kiosk b s t now st) = Inr l
          \<and> map_option status (findById (d_id d) (diagnoses (snd (data_upload kiosk b s t now st))))
              = Some pending_approval)"
proof (intro conjI impI)
  note loc = data_upload_located [OF assms(1-7,9)]
  {
    assume warm: "js_ge t 25"
    with assms(9) show l: "l = ''health is good''" by (simp add: predictDisease_warm)
    then have "l \<notin> set disease_enum" by (simp add: health_is_good_refused)
    then show run: "data_upload kiosk b s t now st = (Inl ServerError, st)"
      by (simp add: loc(2))
    show "map_option status (findById (d_id d) (diagnoses (snd (data_upload kiosk b s t now st))))
        = Some collecting_data"
      by (simp add: run loc(1) assms(8))
  }
  {
    assume cool: "\<not> js_ge t 25 \<and> sensor_subdoc b s t now \<noteq> None"
    then obtain e where e: "sensor_subdoc b s t now = Some e" by auto
    from cool have c: "\<not> js_ge t 25" by simp
    from assms(9,10) show l: "l = ''Disease B''"
      by (simp add: predictDisease_cool [OF assms(3-5) c] split: if_splits)
    then have en: "l \<in> set disease_enum" by (simp add: disease_enum_def)
    from loc(3) [OF en e] show "fst (data_upload kiosk b s t now st) = Inr l" by simp
    from loc(3) [OF en e] assms(8,10)
    show "map_option status (findById (d_id d) (diagnoses (snd (data_upload kiosk b s t now st))))
        = Some pending_approval"
      by (simp add: advance_status_eq)
  }
qed

theorem C7_witness:
  "reachable kiosk_started \<and> ''K1'' \<noteq> []
   \<and> active_patient ''K1'' kiosk_started = Some (hd (patients kiosk_started))
   \<and> ongoing_diagnosis (hd (patients kiosk_started)) ''K1'' kiosk_started
       = Some (hd (diagnoses kiosk_started))
   \<and> status (hd (diagnoses kiosk_started)) = collecting_data
   \<and> d_id (hd (diagnoses kiosk_started)) = 1
   \<and> js_ge (Number 38) 25
   \<and> predictDisease \<lparr>bpm = Number 100, spo2 = Number 92, temperature = Number 38\<rparr> = ''health is good''
   \<and> data_upload ''K1'' (Number 100) (Number 92) (Number 38) 11 kiosk_started
       = (Inl ServerError, kiosk_started)
   \<and> map_option status (findById 1 (diagnoses
         (snd (data_upload ''K1'' (Number 100) (Number 92) (Number 38) 11 kiosk_started))))
       = Some collecting_data
   \<and> \<not> js_ge (Number 20) 25
   \<and> predictDisease \<lparr>bpm = Number 60, spo2 = Number 98, temperature = Number 20\<rparr> = ''Disease B''
   \<and> fst (data_upload ''K1'' (Number 60) (Number 98) (Number 20) 11 kiosk_started) = Inr ''Disease B''
   \<and> map_option status (findById 1 (diagnoses
         (snd (data_upload ''K1'' (Number 60) (Number 98) (Number 20) 11 kiosk_started))))
       = Some pending_approval"
proof -
  have p: "active_patient ''K1'' kiosk_started = Some (hd (patients kiosk_started))"
    by code_simp
  have d: "ongoing_diagnosis (hd (patients kiosk_started)) ''K1'' kiosk_started
      = Some (hd (diagnoses kiosk_started))"
    by code_simp
  have c: "status (hd (diagnoses kiosk_started)) = collecting_data"
    and i: "d_id (hd (diagnoses kiosk_started)) = 1"
    by code_simp+
  have warm: "predictDisease \<lparr>bpm = Number 100, spo2 = Number 92, temperature = Number 38\<rparr>
      = ''health is good''"
    and cool: "predictDisease \<lparr>bpm = Number 60, spo2 = Number 98, temperature = Number 20\<rparr>
      = ''Disease B''"
    by (simp_all add: predictDisease_def)
  have w: "js_ge (Number 38) 25" and n: "\<not> js_ge (Number 20) 25" by simp_all
  have k: "\<not> js_ge (Number 20) 25 \<and> sensor_subdoc (Number 60) (Number 98) (Number 20) 11 \<noteq> None"
    by simp
  have e: "''K1'' \<noteq> []" and hu: "''health is good'' \<noteq> ''Undetermined''"
    and bu: "''Disease B'' \<noteq> ''Undetermined''"
    by simp_all
  note a = C7_determined_label_only_below_25 [OF reachable_scenarios(1) e js_Number(1)
      js_Number(1) js_Number(1) p d c warm hu, where now = 11, THEN conjunct1, THEN mp, OF w,
      unfolded i]
  note b = C7_determined_label_only_below_25 [OF reachable_scenarios(1) e js_Number(1)
      js_Number(1) js_Number(1) p d c cool bu, where now = 11, THEN conjunct2, THEN mp, OF k,
      unfolded i]
  have 1: "data_upload ''K1'' (Number 100) (Number 92) (Number 38) 11 kiosk_started
        = (Inl ServerError, kiosk_started)"
    by (rule a [THEN conjunct2, THEN conjunct1])
  have 2: "map_option status (findById 1 (diagnoses
         (snd (data_upload ''K1'' (Number 100) (Number 92) (Number 38) 11 kiosk_started))))
       = Some collecting_data"
    by (rule a [THEN conjunct2, THEN conjunct2])
  have 3: "fst (data_upload ''K1'' (Number 60) (Number 98) (Number 20) 11 kiosk_started)
        = Inr ''Disease B''"
    by (rule b [THEN conjunct2, THEN conjunct1])
  have 4: "map_option status (findById 1 (diagnoses
         (snd (data_upload ''K1'' (Number 60) (Number 98) (Number 20) 11 kiosk_started))))
       = Some pending_approval"
    by (rule b [THEN conjunct2, THEN conjunct2])
  show ?thesis
    by (intro conjI reachable_scenarios(1) e p d c i w n warm cool 1 2 3 4)
qed

subsection \<open>C8\<close>

text \<open>
  C8. In every store the handlers can reach from the empty one, a Diagnosis has
  \<open>commandExecuted\<close> set exactly when its status is \<open>medication_dispensed\<close>, and
  each handler that writes keeps this, from whatever store that has it:
  \<open>patient_start\<close>, \<open>data_upload\<close>, \<open>approve\<close> and \<open>command_executed\<close>
  (\<open>get_motor_command\<close> writes nothing).
\<close>

theorem C8_executed_iff_dispensed:
  "(reachable st \<longrightarrow>
      (\<forall>d \<in> set (diagnoses st). commandExecuted d = (status d = medication_dispensed)))
   \<and> (exec_inv st \<longrightarrow>
        exec_inv (snd (patient_start nm ag phone kiosk doctor now st))
        \<and> exec_inv (snd (data_upload kiosk b s t now st))
        \<and> exec_inv (snd (approve diagnosisId disease doctor now st))
        \<and> exec_inv (snd (command_executed body now st)))"
proof (intro conjI impI)
  assume "reachable st"
  then have "exec_inv st" by (rule reachable_exec_inv)
  then show "\<forall>d \<in> set (diagnoses st). commandExecuted d = (status d = medication_dispensed)"
    by (simp add: exec_inv_def)
next
  assume inv: "exec_inv st"
  show "exec_inv (snd (patient_start nm ag phone kiosk doctor now st))"
    by (rule exec_inv_patient_start [OF inv])
  show "exec_inv (snd (data_upload kiosk b s t now st))"
    by (rule exec_inv_data_upload [OF inv])
  show "exec_inv (snd (approve diagnosisId disease doctor now st))"
    by (rule exec_inv_approve [OF inv])
  show "exec_inv (snd (command_executed body now st))"
    by (rule exec_inv_command_executed [OF inv])
qed

theorem C8_witness:
  "reachable kiosk_dispensed
   \<and> map commandExecuted (diagnoses kiosk_dispensed) = [True]
   \<and> map status (diagnoses kiosk_dispensed) = [medication_dispensed]
   \<and> exec_inv kiosk_dispensed
   \<and> exec_inv (snd (patient_start ''Ravi'' 41 None ''K1'' 7 17 kiosk_dispensed))"
proof -
  have r: "reachable kiosk_dispensed"
    unfolding kiosk_dispensed_def by (intro reachable.intros reachable_scenarios)
  have v: "map commandExecuted (diagnoses kiosk_dispensed) = [True]"
    and w: "map status (diagnoses kiosk_dispensed) = [medication_dispensed]"
    by code_simp+
  note t = C8_executed_iff_dispensed [of kiosk_dispensed "''Ravi''" 41 None "''K1''" 7 17]
  from t [THEN conjunct1, THEN mp, OF r] have i: "exec_inv kiosk_dispensed"
    unfolding exec_inv_def .
  note n = t [THEN conjunct2, THEN mp, OF i, THEN conjunct1]
  show ?thesis
    by (intro conjI r i v w n)
qed

subsection \<open>C9\<close>



subsection \<open>C10\<close>

text \<open>
  C10. A kiosk with an active patient and no Diagnosis of that patient and kiosk in
  \<open>collecting_data\<close>, \<open>prediction_made\<close> or \<open>pending_approval\<close>, and a reading
  that passes the guard. When the temperature reads 25 or more, \<open>data_upload\<close> fails:
  \<open>save\<close> refuses the new Diagnosis with its label \<open>health is good\<close>, the handler
  answers 500, and the Diagnoses and the patients are as before. When the temperature
  reads below 25 and the three fields can be cast, \<open>data_upload\<close> answers the label
  and inserts one new Diagnosis for that patient, the patient's doctor and the kiosk. The
  new Diagnosis holds exactly this reading and its label; it starts in
  \<open>collecting_data\<close> and, like every session, is stored as \<open>pending_approval\<close> when
  the label is a determined one.
\<close>

theorem C10_fallback_only_below_25:
  assumes "reachable st" and "kiosk \<noteq> []" and "\<not> isNaN b" "\<not> isNaN s" "\<not> isNaN t"
    and "active_patient kiosk st = Some p"
    and "ongoing_diagnosis p kiosk st = None"
    and "predictDisease \<lparr>bpm = b, spo2 = s, temperature = t\<rparr> = l"
  shows "(js_ge t 25 \<longrightarrow>
            fst (data_upload kiosk b s t now st) = Inl ServerError
          \<and> diagnoses (snd (data_upload kiosk b s t now st)) = diagnoses st
          \<and> patients (snd (data_upload kiosk b s t now st)) = patients st)
    \<and> (\<not> js_ge t 25 \<and> sensor_subdoc b s t now = Some e \<longrightarrow>
            fst (data_upload kiosk b s t now st) = Inr l
          \<and> diagnoses (snd (data_upload kiosk b s t now st)) =
              diagnoses st @
              [\<lparr>d_id = nextId st, patientId = p_id p, doctorId = p_doctorId p, kioskId = kiosk,
                sensorData = [e], predictedDisease = l, approvedDisease = ''N/A'',
                status = (if l = ''Undetermined'' then collecting_data else pending_approval),
                motorCommand = none, commandExecuted = False, createdAt = now, updatedAt = now\<rparr>]
          \<and> patients (snd (data_upload kiosk b s t now st)) = patients st)"
proof (intro conjI impI)
  from reachable_store_ok [OF assms(1)]
  have fresh: "\<forall>d \<in> set (diagnoses st). d_id d \<noteq> nextId st"
    by (auto simp: store_ok_def)
  {
    assume warm: "js_ge t 25"
    from predictDisease_warm [OF warm, of b s] assms(8) have "l = ''health is good''"
      by simp
    then have l: "l \<notin> set disease_enum"
      by (simp add: health_is_good_refused)
    have "data_upload kiosk b s t now st = (Inl ServerError, st\<lparr>nextId := Suc (nextId st)\<rparr>)"
    proof (cases "sensor_subdoc b s t now")
      case None
      with assms(2-7) show ?thesis by (simp add: data_upload_cast_error)
    next
      case (Some e')
      from data_upload_fresh [OF assms(2-7) fresh Some assms(8)] l show ?thesis by simp
    qed
    then show "fst (data_upload kiosk b s t now st) = Inl ServerError"
      and "diagnoses (snd (data_upload kiosk b s t now st)) = diagnoses st"
      by simp_all
  }
  {
    assume cool: "\<not> js_ge t 25 \<and> sensor_subdoc b s t now = Some e"
    then have c: "\<not> js_ge t 25" and e: "sensor_subdoc b s t now = Some e" by simp_all
    from predictDisease_cool_enum [OF assms(3-5) c] assms(8)
    have l: "l \<in> set disease_enum" by simp
    from data_upload_fresh [OF assms(2-7) fresh e assms(8)] l
    have run: "data_upload kiosk b s t now st =
        (Inr l, st\<lparr>nextId := Suc (nextId st),
           diagnoses := diagnoses st
             @ [uploaded (new_diagnosis (nextId st) (p_id p) (p_doctorId p) kiosk now) e l now]\<rparr>)"
      by simp
    then show "fst (data_upload kiosk b s t now st) = Inr l" by simp
    from run show "diagnoses (snd (data_upload kiosk b s t now st)) =
        diagnoses st @
        [\<lparr>d_id = nextId st, patientId = p_id p, doctorId = p_doctorId p, kioskId = kiosk,
          sensorData = [e], predictedDisease = l, approvedDisease = ''N/A'',
          status = (if l = ''Undetermined'' then collecting_data else pending_approval),
          motorCommand = none, commandExecuted = False, createdAt = now, updatedAt = now\<rparr>]"
      by (simp add: uploaded_def new_diagnosis_def advance_status_eq)
  }
  show "patients (snd (data_upload kiosk b s t now st)) = patients st"
    "patients (snd (data_upload kiosk b s t now st)) = patients st"
    by (rule patients_data_upload)+
qed

theorem C10_witness:
  "reachable kiosk_orphaned \<and> ''K1'' \<noteq> []
   \<and> active_patient ''K1'' kiosk_orphaned = Some (hd (patients kiosk_orphaned))
   \<and> ongoing_diagnosis (hd (patients kiosk_orphaned)) ''K1'' kiosk_orphaned = None
   \<and> diagnoses kiosk_orphaned = []
   \<and> js_ge (Number (183 / 5)) 25
   \<and> fst (data_upload ''K1'' (Number 72) (Number 98) (Number (183 / 5)) 12 kiosk_orphaned)
       = Inl ServerError
   \<and> diagnoses (snd (data_upload ''K1'' (Number 72) (Number 98) (Number (183 / 5)) 12
         kiosk_orphaned)) = []
   \<and> fst (data_upload ''K1'' (Number 72) (Number 98) (Number 20) 12 kiosk_orphaned)
       = Inr ''Undetermined''
   \<and> map status (diagnoses (snd (data_upload ''K1'' (Number 72) (Number 98) (Number 20) 12
         kiosk_orphaned))) = [collecting_data]
   \<and> map sensorData (diagnoses (snd (data_upload ''K1'' (Number 72) (Number 98) (Number 20) 12
         kiosk_orphaned)))
       = [[\<lparr>bpm = Some 72, spo2 = Some 98, temperature = Some 20, timestamp = 12\<rparr>]]"
proof -
  have p: "active_patient ''K1'' kiosk_orphaned = Some (hd (patients kiosk_orphaned))"
    by code_simp
  have d: "ongoing_diagnosis (hd (patients kiosk_orphaned)) ''K1'' kiosk_orphaned = None"
    by code_simp
  have e: "diagnoses kiosk_orphaned = []" by code_simp
  have k: "''K1'' \<noteq> []" by simp
  have w: "js_ge (Number (183 / 5)) 25" by simp
  have c: "\<not> js_ge (Number 20) 25
      \<and> sensor_subdoc (Number 72) (Number 98) (Number 20) 12
          = Some \<lparr>bpm = Some 72, spo2 = Some 98, temperature = Some 20, timestamp = 12\<rparr>"
    by simp
  have l: "predictDisease \<lparr>bpm = Number 72, spo2 = Number 98, temperature = Number 20\<rparr>
      = ''Undetermined''"
    by (simp add: predictDisease_def)
  note a = C10_fallback_only_below_25 [OF reachable_scenarios(7) k js_Number(1) js_Number(1)
      js_Number(1) p d refl, where now = 12, THEN conjunct1, THEN mp, OF w, unfolded e]
  note b = C10_fallback_only_below_25 [OF reachable_scenarios(7) k js_Number(1) js_Number(1)
      js_Number(1) p d l, where now = 12, THEN conjunct2, THEN mp, OF c, unfolded e]
  have 1: "map status (diagnoses (snd (data_upload ''K1'' (Number 72) (Number 98) (Number 20) 12
         kiosk_orphaned))) = [collecting_data]"
    and 2: "map sensorData (diagnoses (snd (data_upload ''K1'' (Number 72) (Number 98) (Number 20)
         12 kiosk_orphaned)))
       = [[\<lparr>bpm = Some 72, spo2 = Some 98, temperature = Some 20, timestamp = 12\<rparr>]]"
    using b [THEN conjunct2, THEN conjunct1] by simp_all
  show ?thesis
    by (intro conjI reachable_scenarios(7) k p d e w a [THEN conjunct1]
        a [THEN conjunct2, THEN conjunct1] b [THEN conjunct1] 1 2)
qed

end
